(* ===== verification/Store_Prelude.thy ===== *)
theory Store_Prelude
  imports Main "HOL-Library.Word" "HOL-Library.AList" "HOL-Library.List_Lexorder" "HOL-Library.Char_ord"
begin

text \<open>
  The prelude: the types every component shares (bytes, machine integers, durations, the
  error values of the crate), the hash map and B-tree containers as the association lists
  that hold their contents, and the lemma collections used by the component proofs.

  A hash map is an association list with distinct keys, so that \<open>len()\<close> is the length of
  the list; no property depends on the order of its entries. A B-tree map is an association
  list whose keys are strictly increasing, which is the order its iterators visit.
\<close>

section \<open>Machine types\<close>

type_synonym u32 = "32 word"
type_synonym u64 = "64 word"
type_synonym bytes = "8 word list"

text \<open>A \<open>Duration\<close> or an \<open>Instant\<close> is a number of nanoseconds.\<close>

type_synonym duration = nat

definition from_secs :: "u64 \<Rightarrow> duration" where
  "from_secs s = unat s * 1000000000"

definition from_millis :: "u64 \<Rightarrow> duration" where
  "from_millis ms = unat ms * 1000000"

definition as_secs :: "duration \<Rightarrow> nat" where
  "as_secs d = d div 1000000000"

definition as_millis :: "duration \<Rightarrow> nat" where
  "as_millis d = d div 1000000"

lemma as_millis_from_millis [simp]: "as_millis (from_millis ms) = unat ms"
  by (simp add: as_millis_def from_millis_def)

text \<open>Counting up on \<open>u32\<close>, below its top value \<open>- 1\<close>.\<close>

lemma unat_succ: "unat w + 1 < 2 ^ 32 \<Longrightarrow> unat (w + 1 :: u32) = unat w + 1"
  by (simp add: unat_word_ariths)

lemma u32_max [simp]: "unat (- 1 :: u32) = 2 ^ 32 - 1"
  by (simp add: unsigned_minus_1_eq_mask mask_eq_exp_minus_1)

lemma u32_below_max: "w \<noteq> - 1 \<Longrightarrow> unat w + 1 < 2 ^ 32" for w :: u32
proof -
  assume "w \<noteq> - 1"
  then have "unat w \<noteq> unat (- 1 :: u32)" by (simp add: word_unat_eq_iff del: u32_max)
  moreover have "unat w < 2 ^ LENGTH(32)" by (rule unsigned_less)
  ultimately show ?thesis by simp
qed

section \<open>Errors\<close>

text \<open>
  The crate reports every failure as an \<open>anyhow::Error\<close>. The messages it builds itself are
  the first four constructors; \<open>Backend\<close> is an error passed on from a driver, a file system
  call or a serializer, with its message.
\<close>

datatype store_error =
    CircuitBreakerOpen
  | OperationTimedOut
  | DirectoryTraversal
  | S3GetObjectFailed string
  | Backend string

fun error_message :: "store_error \<Rightarrow> string" where
  "error_message CircuitBreakerOpen = ''Circuit breaker is OPEN''"
| "error_message OperationTimedOut = ''operation timed out''"
| "error_message DirectoryTraversal = ''Invalid blob key: directory traversal detected''"
| "error_message (S3GetObjectFailed e) = ''S3 GetObject failed: '' @ e"
| "error_message (Backend e) = e"

type_synonym 'a result = "store_error + 'a"

definition is_err :: "'a result \<Rightarrow> bool" where
  "is_err r = (case r of Inl _ \<Rightarrow> True | Inr _ \<Rightarrow> False)"

lemma is_err_simps [simp]: "is_err (Inl e)" "\<not> is_err (Inr v)"
  by (simp_all add: is_err_def)

section \<open>Lemma collections\<close>

named_theorems container_simps \<open>lookups after updates of hash maps and B-trees\<close>
named_theorems invar_intros \<open>operations keep their component's invariant\<close>
named_theorems serves_intros \<open>calls that implement an operation of a contract\<close>

section \<open>Hash maps\<close>

type_synonym ('k, 'v) hashmap = "('k \<times> 'v) list"

abbreviation hm_get :: "('k, 'v) hashmap \<Rightarrow> 'k \<Rightarrow> 'v option" where
  "hm_get \<equiv> map_of"

definition hm_insert :: "'k \<Rightarrow> 'v \<Rightarrow> ('k, 'v) hashmap \<Rightarrow> ('k, 'v) hashmap" where
  "hm_insert k v m = AList.update k v m"

definition hm_remove :: "'k \<Rightarrow> ('k, 'v) hashmap \<Rightarrow> ('k, 'v) hashmap" where
  "hm_remove k m = AList.delete k m"

definition hm_contains :: "('k, 'v) hashmap \<Rightarrow> 'k \<Rightarrow> bool" where
  "hm_contains m k = (hm_get m k \<noteq> None)"

definition hm_keys :: "('k, 'v) hashmap \<Rightarrow> 'k list" where
  "hm_keys m = map fst m"

definition hm_ok :: "('k, 'v) hashmap \<Rightarrow> bool" where
  "hm_ok m = distinct (map fst m)"

lemma hm_get_insert [simp, container_simps]: "hm_get (hm_insert k v m) = (hm_get m)(k \<mapsto> v)"
  by (simp add: hm_insert_def update_conv')

lemma hm_get_remove [simp, container_simps]: "hm_get (hm_remove k m) = (hm_get m)(k := None)"
  by (simp add: hm_remove_def delete_conv')

lemma hm_ok_Nil [simp, invar_intros]: "hm_ok []"
  by (simp add: hm_ok_def)

lemma hm_ok_insert [invar_intros]: "hm_ok m \<Longrightarrow> hm_ok (hm_insert k v m)"
  by (simp add: hm_ok_def hm_insert_def distinct_update)

lemma hm_ok_remove [invar_intros]: "hm_ok m \<Longrightarrow> hm_ok (hm_remove k m)"
  by (simp add: hm_ok_def hm_remove_def distinct_delete)

lemma set_hm_keys: "set (hm_keys m) = dom (hm_get m)"
  by (simp add: hm_keys_def dom_map_of_conv_image_fst)

lemma hm_length: "hm_ok m \<Longrightarrow> length m = card (dom (hm_get m))"
  by (metis distinct_card hm_keys_def hm_ok_def length_map set_hm_keys)

end
