(* ===== verification/Circuit_Breaker.thy ===== *)
theory Circuit_Breaker
  imports Store_Prelude
begin

text \<open>
  \<open>CircuitBreaker\<close> of \<^verbatim>\<open>rust/src/resilience.rs\<close>, one call at a time: each operation is a
  function of the breaker and, where the code reads \<open>Instant::now\<close>, of the current time. The
  interleaving of calls on the breaker's two locks is the theory \<open>Breaker_Interleaving\<close>.

  \<open>consecutive_failures\<close> is an \<open>AtomicU32\<close>: \<open>fetch_add\<close> wraps. The \<open>+ 1\<close> on the value it
  returns is ordinary \<open>u32\<close> arithmetic, which panics when the crate is built with overflow
  checks (the flag \<open>oc\<close>, on in debug builds) and wraps otherwise.
\<close>

datatype circuit_state = Closed | Open | HalfOpen

record circuit_breaker =
  cb_state :: circuit_state
  consecutive_failures :: u32
  failure_threshold :: u32
  reset_timeout :: duration
  last_failure_time :: "duration option"

definition cb_new :: "u32 \<Rightarrow> duration \<Rightarrow> circuit_breaker" where
  "cb_new threshold reset =
     \<lparr>cb_state = Closed, consecutive_failures = 0, failure_threshold = threshold,
      reset_timeout = reset, last_failure_time = None\<rparr>"

text \<open>\<open>Instant::elapsed\<close> saturates at zero, as subtraction on the naturals does.\<close>

definition elapsed :: "duration \<Rightarrow> duration \<Rightarrow> duration" where
  "elapsed instant now = now - instant"

definition can_execute :: "duration \<Rightarrow> circuit_breaker \<Rightarrow> unit result \<times> circuit_breaker" where
  "can_execute now cb =
     (case cb_state cb of
        Closed \<Rightarrow> (Inr (), cb)
      | Open \<Rightarrow>
          (case last_failure_time cb of
             Some instant \<Rightarrow>
               (if elapsed instant now \<ge> reset_timeout cb
                then (Inr (), cb\<lparr>cb_state := HalfOpen\<rparr>)
                else (Inl CircuitBreakerOpen, cb))
           | None \<Rightarrow> (Inl CircuitBreakerOpen, cb))
      | HalfOpen \<Rightarrow> (Inr (), cb))"

definition on_success :: "circuit_breaker \<Rightarrow> circuit_breaker" where
  "on_success cb = cb\<lparr>consecutive_failures := 0, cb_state := Closed\<rparr>"

text \<open>The first component tells whether the addition panicked; the counter has moved by then.\<close>

definition on_failure :: "bool \<Rightarrow> duration \<Rightarrow> circuit_breaker \<Rightarrow> bool \<times> circuit_breaker" where
  "on_failure oc now cb =
     (let old = consecutive_failures cb;
          cb1 = cb\<lparr>consecutive_failures := old + 1\<rparr>
      in if oc \<and> old = - 1 then (True, cb1)
         else
           let failures = old + 1;
               cb2 = cb1\<lparr>last_failure_time := Some now\<rparr>
           in (False, if failures \<ge> failure_threshold cb2 then cb2\<lparr>cb_state := Open\<rparr> else cb2))"

text \<open>The gauge value of the state: 0.0, 1.0 and 2.0 in the code.\<close>

definition current_state_code :: "circuit_breaker \<Rightarrow> nat" where
  "current_state_code cb = (case cb_state cb of Closed \<Rightarrow> 0 | Open \<Rightarrow> 1 | HalfOpen \<Rightarrow> 2)"

lemmas breaker_defs = cb_new_def can_execute_def on_success_def on_failure_def elapsed_def

section \<open>Frames\<close>

lemma breaker_frame [simp]:
  "failure_threshold (snd (can_execute now cb)) = failure_threshold cb"
  "failure_threshold (on_success cb) = failure_threshold cb"
  "failure_threshold (snd (on_failure oc now cb)) = failure_threshold cb"
  "reset_timeout (snd (can_execute now cb)) = reset_timeout cb"
  "reset_timeout (on_success cb) = reset_timeout cb"
  "reset_timeout (snd (on_failure oc now cb)) = reset_timeout cb"
  "consecutive_failures (snd (can_execute now cb)) = consecutive_failures cb"
  "consecutive_failures (on_success cb) = 0"
  "consecutive_failures (snd (on_failure oc now cb)) = consecutive_failures cb + 1"
  "last_failure_time (snd (can_execute now cb)) = last_failure_time cb"
  "last_failure_time (on_success cb) = last_failure_time cb"
  by (auto simp: breaker_defs Let_def split: circuit_state.splits option.splits)

lemma on_success_state [simp]: "cb_state (on_success cb) = Closed"
  by (simp add: on_success_def)

lemma can_execute_closed [simp]: "cb_state cb \<noteq> Open \<Longrightarrow> can_execute now cb = (Inr (), cb)"
  by (cases "cb_state cb") (simp_all add: can_execute_def)

lemma can_execute_open:
  assumes "cb_state cb = Open" and "last_failure_time cb = Some t"
  shows "can_execute now cb =
    (if t + reset_timeout cb \<le> now \<or> reset_timeout cb = 0 then (Inr (), cb\<lparr>cb_state := HalfOpen\<rparr>)
     else (Inl CircuitBreakerOpen, cb))"
  using assms by (auto simp: can_execute_def elapsed_def)

lemma can_execute_admitted:
  "fst (can_execute now cb) = Inr () \<Longrightarrow> cb_state (snd (can_execute now cb)) \<noteq> Open"
  by (auto simp: can_execute_def split: circuit_state.splits option.splits if_splits)

lemma on_failure_counts:
  assumes "unat (consecutive_failures cb) + 1 < 2 ^ 32"
  shows "\<not> fst (on_failure oc now cb)"
    and "unat (consecutive_failures (snd (on_failure oc now cb))) = unat (consecutive_failures cb) + 1"
    and "last_failure_time (snd (on_failure oc now cb)) = Some now"
    and "cb_state (snd (on_failure oc now cb)) =
      (if unat (failure_threshold cb) \<le> unat (consecutive_failures cb) + 1 then Open else cb_state cb)"
proof -
  have "consecutive_failures cb \<noteq> - 1"
    using assms by (auto simp: unsigned_minus_1_eq_mask mask_eq_exp_minus_1)
  then show "\<not> fst (on_failure oc now cb)"
    "unat (consecutive_failures (snd (on_failure oc now cb))) = unat (consecutive_failures cb) + 1"
    "last_failure_time (snd (on_failure oc now cb)) = Some now"
    "cb_state (snd (on_failure oc now cb)) =
      (if unat (failure_threshold cb) \<le> unat (consecutive_failures cb) + 1 then Open else cb_state cb)"
    using assms by (simp_all add: on_failure_def Let_def unat_succ word_le_nat_alt)
qed

section \<open>Runs of a breaker\<close>

datatype breaker_call = CanExecute duration | OnSuccess | OnFailure duration

fun apply_call :: "bool \<Rightarrow> breaker_call \<Rightarrow> circuit_breaker \<Rightarrow> circuit_breaker" where
  "apply_call oc (CanExecute now) cb = snd (can_execute now cb)"
| "apply_call oc OnSuccess cb = on_success cb"
| "apply_call oc (OnFailure now) cb = snd (on_failure oc now cb)"

definition breaker_run :: "bool \<Rightarrow> breaker_call list \<Rightarrow> circuit_breaker \<Rightarrow> circuit_breaker" where
  "breaker_run oc calls cb = fold (apply_call oc) calls cb"

lemma breaker_run_simps [simp]:
  "breaker_run oc [] cb = cb"
  "breaker_run oc (calls @ [c]) cb = apply_call oc c (breaker_run oc calls cb)"
  by (simp_all add: breaker_run_def)

text \<open>The specification: the failures since the last success, and when the last one was.\<close>

fun streak_step :: "breaker_call \<Rightarrow> nat \<Rightarrow> nat" where
  "streak_step (CanExecute now) n = n"
| "streak_step OnSuccess n = 0"
| "streak_step (OnFailure now) n = Suc n"

definition failure_streak :: "breaker_call list \<Rightarrow> nat" where
  "failure_streak calls = fold streak_step calls 0"

lemma failure_streak_simps [simp]:
  "failure_streak [] = 0"
  "failure_streak (calls @ [c]) = streak_step c (failure_streak calls)"
  by (simp_all add: failure_streak_def)

lemma failure_streak_le: "failure_streak calls \<le> length calls"
proof (induction calls rule: rev_induct)
  case Nil
  show ?case by simp
next
  case (snoc c calls)
  then show ?case by (cases c) auto
qed

lemma breaker_run_frame [simp]:
  "failure_threshold (breaker_run oc calls cb) = failure_threshold cb"
  "reset_timeout (breaker_run oc calls cb) = reset_timeout cb"
proof -
  have step: "failure_threshold (apply_call oc c cb) = failure_threshold cb"
    "reset_timeout (apply_call oc c cb) = reset_timeout cb" for c cb
    by (cases c; simp)+
  show "failure_threshold (breaker_run oc calls cb) = failure_threshold cb"
    "reset_timeout (breaker_run oc calls cb) = reset_timeout cb"
    by (induction calls rule: rev_induct) (simp_all add: step)
qed

definition breaker_matches :: "nat \<Rightarrow> circuit_breaker \<Rightarrow> bool" where
  "breaker_matches n cb \<longleftrightarrow>
     unat (consecutive_failures cb) = n
     \<and> (cb_state cb = Closed \<longleftrightarrow> n < unat (failure_threshold cb))
     \<and> (cb_state cb \<noteq> Closed \<longrightarrow> last_failure_time cb \<noteq> None)"

lemma apply_call_matches:
  assumes "breaker_matches n cb" and "0 < failure_threshold cb" and "Suc n < 2 ^ 32"
  shows "breaker_matches (streak_step c n) (apply_call oc c cb)"
proof (cases c)
  case (CanExecute now)
  then show ?thesis
    using assms(1)
    by (auto simp: breaker_matches_def can_execute_def split: circuit_state.splits option.splits)
next
  case OnSuccess
  then show ?thesis
    using assms(2) by (simp add: breaker_matches_def word_less_nat_alt)
next
  case (OnFailure now)
  with assms show ?thesis
    using on_failure_counts[of cb oc now]
    by (auto simp: breaker_matches_def split: if_splits)
qed

lemma breaker_run_matches:
  assumes "0 < threshold" and "length calls < 2 ^ 32"
  shows "breaker_matches (failure_streak calls) (breaker_run oc calls (cb_new threshold reset))"
  using assms(2)
proof (induction calls rule: rev_induct)
  case Nil
  show ?case using assms(1) by (simp add: breaker_matches_def cb_new_def word_less_nat_alt)
next
  case (snoc c calls)
  have "Suc (failure_streak calls) < 2 ^ 32"
    using failure_streak_le[of calls] snoc.prems by simp
  moreover have "0 < failure_threshold (breaker_run oc calls (cb_new threshold reset))"
    using assms(1) by (simp add: cb_new_def)
  ultimately show ?case
    using snoc by (simp add: apply_call_matches)
qed

end
