(* ===== verification/Breaker_Interleaving.thy ===== *)
theory Breaker_Interleaving
  imports Circuit_Breaker
begin

text \<open>
  The circuit breaker of \<^verbatim>\<open>rust/src/resilience.rs\<close> under concurrent calls: its two
  \<open>RwLock\<close>s, its atomic counter, and any number of tasks that run
  \<open>ResilientExecutor::execute\<close> on it. A step is one task moving from one \<open>await\<close> or shared
  access to the next; what happens between two of them is one step, because nothing else it
  touches is shared.

  A task's position is its program counter. A lock records who holds it; a task may take it
  as soon as it is free (a fair lock makes some of these steps wait longer, so it has fewer
  behaviours). \<open>Breaker_Cancellation\<close> adds the calls that are dropped under way.
\<close>

record rw_lock =
  writer :: "nat option"
  readers :: "nat set"

definition unlocked :: rw_lock where
  "unlocked = \<lparr>writer = None, readers = {}\<rparr>"

definition can_write :: "rw_lock \<Rightarrow> bool" where
  "can_write l \<longleftrightarrow> writer l = None \<and> readers l = {}"

definition can_read :: "rw_lock \<Rightarrow> bool" where
  "can_read l \<longleftrightarrow> writer l = None"

definition lock_write :: "nat \<Rightarrow> rw_lock \<Rightarrow> rw_lock" where
  "lock_write i l = l\<lparr>writer := Some i\<rparr>"

definition unlock_write :: "rw_lock \<Rightarrow> rw_lock" where
  "unlock_write l = l\<lparr>writer := None\<rparr>"

definition lock_read :: "nat \<Rightarrow> rw_lock \<Rightarrow> rw_lock" where
  "lock_read i l = l\<lparr>readers := insert i (readers l)\<rparr>"

definition unlock_read :: "nat \<Rightarrow> rw_lock \<Rightarrow> rw_lock" where
  "unlock_read i l = l\<lparr>readers := readers l - {i}\<rparr>"

lemmas lock_defs = unlocked_def can_write_def can_read_def lock_write_def unlock_write_def
  lock_read_def unlock_read_def

text \<open>
  Where a task is: outside a call; in \<open>can_execute\<close> (waiting for the state lock, holding it,
  waiting for the time lock, holding both); running the operation; in \<open>on_success\<close> (waiting,
  holding the state lock, counter reset); in \<open>on_failure\<close> with the count it computed (waiting
  for the time lock, holding it, waiting for the state lock, holding both); in
  \<open>current_state_code\<close> for the gauge, after a success or a failure; sleeping before the next
  attempt; stopped by an arithmetic panic.
\<close>

datatype pc =
    Idle
  | CanWait | CanHold | CanReadWait | CanRead
  | Running
  | SuccWait | SuccHold | SuccStored
  | FailWait u32 | FailHold u32 | FailStateWait | FailBoth
  | ReportWait bool | Reporting bool
  | Backoff
  | Crashed

record shared =
  breaker :: circuit_breaker
  time_now :: duration
  state_lock :: rw_lock
  time_lock :: rw_lock
  pcs :: "nat \<Rightarrow> pc"

definition goto :: "nat \<Rightarrow> pc \<Rightarrow> shared \<Rightarrow> shared" where
  "goto i p s = s\<lparr>pcs := (pcs s)(i := p)\<rparr>"

lemma goto_simps [simp]:
  "breaker (goto i p s) = breaker s" "time_now (goto i p s) = time_now s"
  "state_lock (goto i p s) = state_lock s" "time_lock (goto i p s) = time_lock s"
  "pcs (goto i p s) = (pcs s)(i := p)"
  by (simp_all add: goto_def)

definition init_shared :: "u32 \<Rightarrow> duration \<Rightarrow> shared" where
  "init_shared threshold reset =
     \<lparr>breaker = cb_new threshold reset, time_now = 0, state_lock = unlocked, time_lock = unlocked,
      pcs = (\<lambda>_. Idle)\<rparr>"

text \<open>What \<open>can_execute\<close> does in the open state once it holds both locks.\<close>

definition reset_elapsed :: "duration \<Rightarrow> circuit_breaker \<Rightarrow> bool" where
  "reset_elapsed t cb =
     (case last_failure_time cb of
        Some instant \<Rightarrow> elapsed instant t \<ge> reset_timeout cb
      | None \<Rightarrow> False)"

inductive breaker_step :: "bool \<Rightarrow> shared \<Rightarrow> shared \<Rightarrow> bool" for oc :: bool where
  tick: "breaker_step oc s (s\<lparr>time_now := time_now s + d\<rparr>)"
| can_call: "pcs s i = Idle \<Longrightarrow> breaker_step oc s (goto i CanWait s)"
| can_lock: "pcs s i = CanWait \<Longrightarrow> can_write (state_lock s) \<Longrightarrow>
    breaker_step oc s (goto i CanHold (s\<lparr>state_lock := lock_write i (state_lock s)\<rparr>))"
| can_pass: "pcs s i = CanHold \<Longrightarrow> cb_state (breaker s) \<noteq> Open \<Longrightarrow>
    breaker_step oc s (goto i Running (s\<lparr>state_lock := unlock_write (state_lock s)\<rparr>))"
| can_open: "pcs s i = CanHold \<Longrightarrow> cb_state (breaker s) = Open \<Longrightarrow>
    breaker_step oc s (goto i CanReadWait s)"
| can_lock_time: "pcs s i = CanReadWait \<Longrightarrow> can_read (time_lock s) \<Longrightarrow>
    breaker_step oc s (goto i CanRead (s\<lparr>time_lock := lock_read i (time_lock s)\<rparr>))"
| can_admit: "pcs s i = CanRead \<Longrightarrow> reset_elapsed (time_now s) (breaker s) \<Longrightarrow>
    breaker_step oc s (goto i Running (s\<lparr>breaker := (breaker s)\<lparr>cb_state := HalfOpen\<rparr>,
      state_lock := unlock_write (state_lock s), time_lock := unlock_read i (time_lock s)\<rparr>))"
| can_reject: "pcs s i = CanRead \<Longrightarrow> \<not> reset_elapsed (time_now s) (breaker s) \<Longrightarrow>
    breaker_step oc s (goto i Idle (s\<lparr>
      state_lock := unlock_write (state_lock s), time_lock := unlock_read i (time_lock s)\<rparr>))"
| succ_call: "pcs s i = Running \<Longrightarrow> breaker_step oc s (goto i SuccWait s)"
| succ_lock: "pcs s i = SuccWait \<Longrightarrow> can_write (state_lock s) \<Longrightarrow>
    breaker_step oc s (goto i SuccHold (s\<lparr>state_lock := lock_write i (state_lock s)\<rparr>))"
| succ_store: "pcs s i = SuccHold \<Longrightarrow>
    breaker_step oc s (goto i SuccStored (s\<lparr>breaker := (breaker s)\<lparr>consecutive_failures := 0\<rparr>\<rparr>))"
| succ_close: "pcs s i = SuccStored \<Longrightarrow>
    breaker_step oc s (goto i (ReportWait False) (s\<lparr>breaker := (breaker s)\<lparr>cb_state := Closed\<rparr>,
      state_lock := unlock_write (state_lock s)\<rparr>))"
| fail_call: "pcs s i = Running \<Longrightarrow> old = consecutive_failures (breaker s) \<Longrightarrow>
    breaker_step oc s (goto i (if oc \<and> old = - 1 then Crashed else FailWait (old + 1))
      (s\<lparr>breaker := (breaker s)\<lparr>consecutive_failures := old + 1\<rparr>\<rparr>))"
| fail_lock: "pcs s i = FailWait failures \<Longrightarrow> can_write (time_lock s) \<Longrightarrow>
    breaker_step oc s (goto i (FailHold failures) (s\<lparr>time_lock := lock_write i (time_lock s)\<rparr>))"
| fail_stamp_open: "pcs s i = FailHold failures \<Longrightarrow> failures \<ge> failure_threshold (breaker s) \<Longrightarrow>
    breaker_step oc s (goto i FailStateWait
      (s\<lparr>breaker := (breaker s)\<lparr>last_failure_time := Some (time_now s)\<rparr>\<rparr>))"
| fail_stamp: "pcs s i = FailHold failures \<Longrightarrow> \<not> failures \<ge> failure_threshold (breaker s) \<Longrightarrow>
    breaker_step oc s (goto i (ReportWait True)
      (s\<lparr>breaker := (breaker s)\<lparr>last_failure_time := Some (time_now s)\<rparr>,
         time_lock := unlock_write (time_lock s)\<rparr>))"
| fail_lock_state: "pcs s i = FailStateWait \<Longrightarrow> can_write (state_lock s) \<Longrightarrow>
    breaker_step oc s (goto i FailBoth (s\<lparr>state_lock := lock_write i (state_lock s)\<rparr>))"
| fail_open: "pcs s i = FailBoth \<Longrightarrow>
    breaker_step oc s (goto i (ReportWait True) (s\<lparr>breaker := (breaker s)\<lparr>cb_state := Open\<rparr>,
      state_lock := unlock_write (state_lock s), time_lock := unlock_write (time_lock s)\<rparr>))"
| report_lock: "pcs s i = ReportWait failed \<Longrightarrow> can_read (state_lock s) \<Longrightarrow>
    breaker_step oc s (goto i (Reporting failed) (s\<lparr>state_lock := lock_read i (state_lock s)\<rparr>))"
| report: "pcs s i = Reporting failed \<Longrightarrow>
    breaker_step oc s (goto i (if failed then Backoff else Idle)
      (s\<lparr>state_lock := unlock_read i (state_lock s)\<rparr>))"
| retry: "pcs s i = Backoff \<Longrightarrow> breaker_step oc s (goto i Running s)"
| give_up: "pcs s i = Backoff \<Longrightarrow> breaker_step oc s (goto i Idle s)"

abbreviation breaker_steps :: "bool \<Rightarrow> shared \<Rightarrow> shared \<Rightarrow> bool" where
  "breaker_steps oc \<equiv> (breaker_step oc)\<^sup>*\<^sup>*"

definition reachable :: "bool \<Rightarrow> u32 \<Rightarrow> duration \<Rightarrow> shared \<Rightarrow> bool" where
  "reachable oc threshold reset s = breaker_steps oc (init_shared threshold reset) s"

section \<open>Who holds the locks\<close>

fun writes_state :: "pc \<Rightarrow> bool" where
  "writes_state CanHold = True"
| "writes_state CanReadWait = True"
| "writes_state CanRead = True"
| "writes_state SuccHold = True"
| "writes_state SuccStored = True"
| "writes_state FailBoth = True"
| "writes_state _ = False"

fun reads_state :: "pc \<Rightarrow> bool" where
  "reads_state (Reporting failed) = True"
| "reads_state _ = False"

fun writes_time :: "pc \<Rightarrow> bool" where
  "writes_time (FailHold failures) = True"
| "writes_time FailStateWait = True"
| "writes_time FailBoth = True"
| "writes_time _ = False"

fun reads_time :: "pc \<Rightarrow> bool" where
  "reads_time CanRead = True"
| "reads_time _ = False"

definition lock_inv :: "rw_lock \<Rightarrow> (nat \<Rightarrow> bool) \<Rightarrow> (nat \<Rightarrow> bool) \<Rightarrow> bool" where
  "lock_inv l wr rd \<longleftrightarrow>
     (\<forall>i. writer l = Some i \<longleftrightarrow> wr i) \<and> (\<forall>i. i \<in> readers l \<longleftrightarrow> rd i)
     \<and> (writer l \<noteq> None \<longrightarrow> readers l = {})"

definition locks_ok :: "shared \<Rightarrow> bool" where
  "locks_ok s \<longleftrightarrow>
     lock_inv (state_lock s) (\<lambda>i. writes_state (pcs s i)) (\<lambda>i. reads_state (pcs s i))
     \<and> lock_inv (time_lock s) (\<lambda>i. writes_time (pcs s i)) (\<lambda>i. reads_time (pcs s i))"

lemma locks_ok_init: "locks_ok (init_shared threshold reset)"
  by (simp add: locks_ok_def lock_inv_def init_shared_def unlocked_def)

lemma lock_inv_write:
  "lock_inv l wr rd \<Longrightarrow> can_write l \<Longrightarrow> lock_inv (lock_write i l) (wr(i := True)) rd"
  by (auto simp: lock_inv_def lock_defs)

lemma lock_inv_unwrite:
  "lock_inv l wr rd \<Longrightarrow> wr i \<Longrightarrow> lock_inv (unlock_write l) (wr(i := False)) rd"
  by (auto simp: lock_inv_def lock_defs) (metis option.inject)+

lemma lock_inv_read:
  "lock_inv l wr rd \<Longrightarrow> can_read l \<Longrightarrow> lock_inv (lock_read i l) wr (rd(i := True))"
  by (auto simp: lock_inv_def lock_defs)

lemma lock_inv_unread:
  "lock_inv l wr rd \<Longrightarrow> rd i \<Longrightarrow> lock_inv (unlock_read i l) wr (rd(i := False))"
  by (auto simp: lock_inv_def lock_defs)

lemmas lock_inv_ops = lock_inv_write lock_inv_unwrite lock_inv_read lock_inv_unread

lemma holds_upd:
  "(\<lambda>j. writes_state (if j = i then p else f j)) = (\<lambda>j. writes_state (f j))(i := writes_state p)"
  "(\<lambda>j. reads_state (if j = i then p else f j)) = (\<lambda>j. reads_state (f j))(i := reads_state p)"
  "(\<lambda>j. writes_time (if j = i then p else f j)) = (\<lambda>j. writes_time (f j))(i := writes_time p)"
  "(\<lambda>j. reads_time (if j = i then p else f j)) = (\<lambda>j. reads_time (f j))(i := reads_time p)"
  by auto

lemma holds_same: "P i = b \<Longrightarrow> P(i := b) = P"
  by auto

lemma locks_ok_step: "breaker_step oc s t \<Longrightarrow> locks_ok s \<Longrightarrow> locks_ok t"
  unfolding locks_ok_def
  by (induction rule: breaker_step.induct)
    (simp_all add: holds_upd holds_same lock_inv_ops)

lemma locks_ok_steps: "breaker_steps oc s t \<Longrightarrow> locks_ok s \<Longrightarrow> locks_ok t"
  by (induction rule: rtranclp_induct) (auto intro: locks_ok_step)

lemma reachable_locks_ok: "reachable oc threshold reset s \<Longrightarrow> locks_ok s"
  unfolding reachable_def using locks_ok_steps locks_ok_init by blast

lemma lock_inv_exclusive:
  assumes "lock_inv l wr rd"
  shows "wr i \<Longrightarrow> wr j \<Longrightarrow> i = j"
    and "wr i \<Longrightarrow> \<not> rd j"
    and "can_write l \<Longrightarrow> \<not> wr i"
    and "can_read l \<Longrightarrow> \<not> wr i"
proof -
  have "writer l = Some k \<longleftrightarrow> wr k" for k using assms by (simp add: lock_inv_def)
  note w = this[symmetric]
  show "wr i \<Longrightarrow> wr j \<Longrightarrow> i = j" by (simp add: w)
  show "can_write l \<Longrightarrow> \<not> wr i" "can_read l \<Longrightarrow> \<not> wr i"
    by (simp_all add: w can_write_def can_read_def)
  show "wr i \<Longrightarrow> \<not> rd j" using assms by (auto simp: lock_inv_def)
qed

lemma locks_okD:
  assumes "locks_ok s"
  shows "lock_inv (state_lock s) (\<lambda>i. writes_state (pcs s i)) (\<lambda>i. reads_state (pcs s i))"
    and "lock_inv (time_lock s) (\<lambda>i. writes_time (pcs s i)) (\<lambda>i. reads_time (pcs s i))"
  using assms by (simp_all add: locks_ok_def)

lemmas state_lock_exclusive = lock_inv_exclusive[OF locks_okD(1)]
lemmas time_lock_exclusive = lock_inv_exclusive[OF locks_okD(2)]

lemma open_holder:
  assumes "locks_ok s" and "writes_state (pcs s i)" and "pcs s j = CanReadWait \<or> pcs s j = CanRead"
  shows "j = i"
proof -
  have "writes_state (pcs s j)" using assms(3) by auto
  then show ?thesis using state_lock_exclusive(1)[OF assms(1)] assms(2) by simp
qed

section \<open>What holds of the breaker at every moment\<close>

text \<open>
  A call that found the breaker open keeps finding it open while it holds the state lock; a
  breaker that is not closed has the time of a failure, which is not in the future, so the
  reset timeout is always counted from somewhere.
\<close>

definition breaker_ok :: "shared \<Rightarrow> bool" where
  "breaker_ok s \<longleftrightarrow>
     (\<forall>i. pcs s i = CanReadWait \<or> pcs s i = CanRead \<longrightarrow> cb_state (breaker s) = Open)
     \<and> (\<forall>i. pcs s i = FailStateWait \<or> pcs s i = FailBoth \<longrightarrow> last_failure_time (breaker s) \<noteq> None)
     \<and> (cb_state (breaker s) \<noteq> Closed \<longrightarrow> last_failure_time (breaker s) \<noteq> None)
     \<and> (\<forall>t. last_failure_time (breaker s) = Some t \<longrightarrow> t \<le> time_now s)"

lemma breaker_ok_init: "breaker_ok (init_shared threshold reset)"
  by (simp add: breaker_ok_def init_shared_def cb_new_def)

lemma breaker_ok_step: "breaker_step oc s t \<Longrightarrow> locks_ok s \<Longrightarrow> breaker_ok s \<Longrightarrow> breaker_ok t"
proof (induction rule: breaker_step.induct)
  case (tick s d)
  then show ?case by (auto simp: breaker_ok_def intro: le_trans[OF _ le_add1])
next
  case (can_admit s i)
  then have "\<And>j. pcs s j = CanReadWait \<or> pcs s j = CanRead \<Longrightarrow> j = i"
    using open_holder[of s i] by simp
  with can_admit show ?case by (auto simp: breaker_ok_def)
next
  case (succ_close s i)
  then have "\<And>j. pcs s j = CanReadWait \<or> pcs s j = CanRead \<Longrightarrow> j = i"
    using open_holder[of s i] by simp
  with succ_close show ?case by (auto simp: breaker_ok_def)
qed (auto simp: breaker_ok_def split: if_splits)

lemma reachable_breaker_ok:
  assumes "reachable oc threshold reset s"
  shows "breaker_ok s"
proof -
  have "breaker_steps oc (init_shared threshold reset) s" using assms by (simp add: reachable_def)
  then have "locks_ok s \<and> breaker_ok s"
    by (induction rule: rtranclp_induct)
      (auto intro: locks_ok_init breaker_ok_init locks_ok_step breaker_ok_step)
  then show ?thesis ..
qed

section \<open>The deadlock\<close>

text \<open>
  \<open>can_execute\<close> takes the state lock and then, in the open state, the time lock;
  \<open>on_failure\<close> takes the time lock and then, at the threshold, the state lock.
\<close>

definition deadlocked :: "nat \<Rightarrow> nat \<Rightarrow> shared \<Rightarrow> bool" where
  "deadlocked i j s \<longleftrightarrow> pcs s i = CanReadWait \<and> pcs s j = FailStateWait"

lemma deadlocked_step:
  assumes "breaker_step oc s t" and "locks_ok s" and "deadlocked i j s"
  shows "deadlocked i j t"
proof -
  have h: "pcs s i = CanReadWait" "pcs s j = FailStateWait"
    using assms(3) by (simp_all add: deadlocked_def)
  have "\<not> can_write (state_lock s)" "\<not> can_read (time_lock s)"
    using state_lock_exclusive(3)[OF assms(2), of i] time_lock_exclusive(4)[OF assms(2), of j] h
    by auto
  with assms(1) h show ?thesis
    by (cases rule: breaker_step.cases) (auto simp: deadlocked_def)
qed

lemma deadlocked_steps:
  assumes "breaker_steps oc s t" and "locks_ok s" and "deadlocked i j s"
  shows "deadlocked i j t"
  using assms by (induction rule: rtranclp_induct) (auto intro: deadlocked_step locks_ok_steps)

text \<open>Once it has happened, no call gets as far as its operation any more.\<close>

lemma deadlocked_blocks_step:
  assumes "breaker_step oc s t" and "locks_ok s" and "deadlocked i j s"
    and "pcs s k \<in> {Idle, CanWait}"
  shows "pcs t k \<in> {Idle, CanWait}"
proof -
  have "\<not> can_write (state_lock s)"
    using state_lock_exclusive(3)[OF assms(2), of i] assms(3) by (auto simp: deadlocked_def)
  with assms(1,4) show ?thesis
    by (cases rule: breaker_step.cases) auto
qed

lemma deadlocked_blocks:
  assumes "breaker_steps oc s t" and "locks_ok s" and "deadlocked i j s"
    and "pcs s k \<in> {Idle, CanWait}"
  shows "pcs t k \<in> {Idle, CanWait}"
  using assms(1,4)
proof (induction rule: rtranclp_induct)
  case base
  then show ?case .
next
  case (step u t)
  then show ?case
    using deadlocked_blocks_step locks_ok_steps[OF step(1) assms(2)]
      deadlocked_steps[OF step(1) assms(2,3)] by blast
qed

text \<open>A task inside a call that can take its next step.\<close>

definition can_move :: "bool \<Rightarrow> nat \<Rightarrow> shared \<Rightarrow> bool" where
  "can_move oc i s \<longleftrightarrow> pcs s i \<noteq> Idle \<and> (\<exists>t. breaker_step oc s t \<and> pcs t i \<noteq> pcs s i)"

lemma deadlocked_stuck:
  assumes "locks_ok s" and "deadlocked i j s" and "\<forall>k. k \<noteq> j \<and> k \<noteq> i \<longrightarrow> pcs s k = Idle"
  shows "\<not> can_move oc k s"
proof
  assume "can_move oc k s"
  then obtain t where t: "pcs s k \<noteq> Idle" "breaker_step oc s t" "pcs t k \<noteq> pcs s k"
    by (auto simp: can_move_def)
  then have "k = i \<or> k = j" using assms(3) by blast
  with deadlocked_step[OF t(2) assms(1,2)] assms(2) t(3) show False
    by (auto simp: deadlocked_def)
qed

lemma can_moveI:
  "breaker_step oc s (goto i p s') \<Longrightarrow> pcs s i \<noteq> Idle \<Longrightarrow> p \<noteq> pcs s i \<Longrightarrow> can_move oc i s"
  unfolding can_move_def by (metis fun_upd_same goto_simps(5))

lemma can_move_cases:
  assumes "\<not> can_move oc i s"
  shows "pcs s i \<in> {Idle, Crashed}
    \<or> pcs s i \<in> {CanWait, SuccWait, FailStateWait} \<and> \<not> can_write (state_lock s)
    \<or> (\<exists>b. pcs s i = ReportWait b) \<and> \<not> can_read (state_lock s)
    \<or> pcs s i = CanReadWait \<and> \<not> can_read (time_lock s)
    \<or> (\<exists>f. pcs s i = FailWait f) \<and> \<not> can_write (time_lock s)"
proof (rule ccontr)
  assume h: "\<not> ?thesis"
  then have "\<exists>p s'. breaker_step oc s (goto i p s') \<and> p \<noteq> pcs s i \<and> pcs s i \<noteq> Idle"
  proof (cases "pcs s i")
    case CanHold
    then show ?thesis by (cases "cb_state (breaker s) = Open") (force intro: breaker_step.intros)+
  next
    case CanRead
    then show ?thesis
      by (cases "reset_elapsed (time_now s) (breaker s)") (force intro: breaker_step.intros)+
  next
    case Running
    with succ_call[OF Running, of oc] show ?thesis by force
  next
    case (FailHold f)
    then show ?thesis
      by (cases "f \<ge> failure_threshold (breaker s)") (force intro: breaker_step.intros)+
  next
    case (Reporting b)
    with report[OF Reporting, of oc] show ?thesis by - (intro exI conjI, assumption, auto)
  next
    case Backoff
    with retry[OF Backoff, of oc] show ?thesis by force
  qed (force intro: breaker_step.intros)+
  with assms show False by (blast intro: can_moveI)
qed

text \<open>
  The inversion is the only way to get stuck: when some task is inside a call and none inside a
  call can move, two of them are deadlocked.
\<close>

lemma state_lock_holder:
  assumes "locks_ok s" and "\<not> can_write (state_lock s)" and "\<And>i. \<not> can_move oc i s"
  obtains i where "pcs s i = CanReadWait" and "\<not> can_read (time_lock s)"
proof -
  obtain i where "writes_state (pcs s i) \<or> reads_state (pcs s i)"
    using locks_okD(1)[OF assms(1)] assms(2) by (auto simp: lock_inv_def can_write_def)
  with can_move_cases[OF assms(3), of i] have "pcs s i = CanReadWait \<and> \<not> can_read (time_lock s)"
    by auto
  then show thesis using that by blast
qed

lemma time_lock_holder:
  assumes "locks_ok s" and "\<not> can_write (time_lock s)" and "\<And>i. \<not> can_move oc i s"
  obtains j where "pcs s j = FailStateWait" and "\<not> can_write (state_lock s)"
proof -
  obtain j where "writes_time (pcs s j) \<or> reads_time (pcs s j)"
    using locks_okD(2)[OF assms(1)] assms(2) by (auto simp: lock_inv_def can_write_def)
  with can_move_cases[OF assms(3), of j] have "pcs s j = FailStateWait \<and> \<not> can_write (state_lock s)"
    by auto
  then show thesis using that by blast
qed

lemma stuck_deadlocked:
  assumes "locks_ok s" and stuck: "\<And>i. \<not> can_move oc i s" and k: "pcs s k \<notin> {Idle, Crashed}"
  shows "\<exists>i j. deadlocked i j s"
proof -
  have read_write: "\<not> can_read l \<Longrightarrow> \<not> can_write l" for l
    by (simp add: can_read_def can_write_def)
  from can_move_cases[OF stuck, of k] k have "\<not> can_write (state_lock s) \<or> \<not> can_write (time_lock s)"
    using read_write by blast
  then obtain i where i: "pcs s i = CanReadWait" "\<not> can_write (time_lock s)"
  proof
    assume "\<not> can_write (state_lock s)"
    from state_lock_holder[OF assms(1) this stuck] show thesis using that read_write by blast
  next
    assume "\<not> can_write (time_lock s)"
    from time_lock_holder[OF assms(1) this stuck] state_lock_holder[OF assms(1) _ stuck]
    show thesis using that read_write by metis
  qed
  from time_lock_holder[OF assms(1) i(2) stuck] i(1) show ?thesis
    by (auto simp: deadlocked_def)
qed

section \<open>Calls that run alone\<close>

definition quiet :: "shared \<Rightarrow> bool" where
  "quiet s \<longleftrightarrow> state_lock s = unlocked \<and> time_lock s = unlocked"

lemma quiet_goto [simp]: "quiet (goto i p s) = quiet s" "quiet (s\<lparr>breaker := b\<rparr>) = quiet s"
  by (simp_all add: quiet_def)

lemma lock_round [simp]:
  "can_write unlocked" "can_read unlocked"
  "unlock_write (lock_write i unlocked) = unlocked" "unlock_read i (lock_read i unlocked) = unlocked"
  by (simp_all add: lock_defs)

lemma quietD: "quiet s \<Longrightarrow> state_lock s = unlocked" "quiet s \<Longrightarrow> time_lock s = unlocked"
  by (simp_all add: quiet_def)

lemma goto_goto [simp]: "goto i q (goto i p s) = goto i q s"
  by (simp add: goto_def)

text \<open>Updates are brought into the order breaker, state lock, time lock, program counters.\<close>

lemma update_order:
  "(goto i p s)\<lparr>breaker := b\<rparr> = goto i p (s\<lparr>breaker := b\<rparr>)"
  "(goto i p s)\<lparr>state_lock := l\<rparr> = goto i p (s\<lparr>state_lock := l\<rparr>)"
  "(goto i p s)\<lparr>time_lock := l\<rparr> = goto i p (s\<lparr>time_lock := l\<rparr>)"
  "(s\<lparr>state_lock := l\<rparr>)\<lparr>breaker := b\<rparr> = (s\<lparr>breaker := b\<rparr>)\<lparr>state_lock := l\<rparr>"
  "(s\<lparr>time_lock := l\<rparr>)\<lparr>breaker := b\<rparr> = (s\<lparr>breaker := b\<rparr>)\<lparr>time_lock := l\<rparr>"
  "(s\<lparr>time_lock := l\<rparr>)\<lparr>state_lock := m\<rparr> = (s\<lparr>state_lock := m\<rparr>)\<lparr>time_lock := l\<rparr>"
  by (simp_all add: goto_def)

lemma state_restore: "state_lock s = l \<Longrightarrow> s\<lparr>state_lock := l\<rparr> = s"
  by (cases s) simp

lemma time_restore: "time_lock s = l \<Longrightarrow> s\<lparr>time_lock := l\<rparr> = s"
  by (cases s) simp

lemmas run_simps = update_order quietD state_restore time_restore

lemma steps2: "R a b \<Longrightarrow> R b c \<Longrightarrow> R\<^sup>*\<^sup>* a c"
  by (blast intro: rtranclp.rtrancl_into_rtrancl)

lemma steps3: "R a b \<Longrightarrow> R b c \<Longrightarrow> R c d \<Longrightarrow> R\<^sup>*\<^sup>* a d"
  by (rule rtranclp.rtrancl_into_rtrancl[OF steps2])

lemma steps4: "R a b \<Longrightarrow> R b c \<Longrightarrow> R c d \<Longrightarrow> R d e \<Longrightarrow> R\<^sup>*\<^sup>* a e"
  by (rule rtranclp.rtrancl_into_rtrancl[OF steps3])

lemma run_can_execute:
  assumes "quiet s" and "pcs s i = Idle" and "cb_state (breaker s) \<noteq> Open"
  shows "breaker_steps oc s (goto i Running s)"
proof -
  let ?s2 = "goto i CanHold (s\<lparr>state_lock := lock_write i unlocked\<rparr>)"
  have "breaker_step oc s (goto i CanWait s)"
    using assms(2) by (rule can_call)
  moreover have "breaker_step oc (goto i CanWait s) ?s2"
    using can_lock[of "goto i CanWait s" i oc] assms(1) by (simp add: run_simps)
  moreover have "breaker_step oc ?s2 (goto i Running s)"
    using can_pass[of ?s2 i oc] assms by (simp add: run_simps)
  ultimately show ?thesis by (rule steps3)
qed

lemma run_on_failure_wait:
  assumes "quiet s" and "pcs s i = Running"
    and "\<not> (oc \<and> consecutive_failures (breaker s) = - 1)"
  shows "breaker_steps oc s (goto i (FailWait (consecutive_failures (breaker s) + 1))
    (s\<lparr>breaker := (breaker s)\<lparr>consecutive_failures := consecutive_failures (breaker s) + 1\<rparr>\<rparr>))"
  using fail_call[OF assms(2) refl, of oc] assms(3) by (simp add: r_into_rtranclp)

lemma run_on_failure_open:
  assumes "quiet s" and "pcs s i = FailWait f" and "f \<ge> failure_threshold (breaker s)"
  shows "breaker_steps oc s (goto i FailStateWait
    (s\<lparr>breaker := (breaker s)\<lparr>last_failure_time := Some (time_now s)\<rparr>, time_lock := lock_write i unlocked\<rparr>))"
proof -
  let ?s1 = "goto i (FailHold f) (s\<lparr>time_lock := lock_write i unlocked\<rparr>)"
  have "breaker_step oc s ?s1"
    using fail_lock[OF assms(2), of oc] assms(1) by (simp add: run_simps)
  moreover have "breaker_step oc ?s1 (goto i FailStateWait
    (s\<lparr>breaker := (breaker s)\<lparr>last_failure_time := Some (time_now s)\<rparr>, time_lock := lock_write i unlocked\<rparr>))"
    using fail_stamp_open[of ?s1 i f oc] assms(3) by (simp add: run_simps)
  ultimately show ?thesis by (rule steps2)
qed

lemma run_on_failure_below:
  assumes "quiet s" and "pcs s i = FailWait f" and "\<not> f \<ge> failure_threshold (breaker s)"
  shows "breaker_steps oc s (goto i (ReportWait True)
    (s\<lparr>breaker := (breaker s)\<lparr>last_failure_time := Some (time_now s)\<rparr>\<rparr>))"
proof -
  let ?s1 = "goto i (FailHold f) (s\<lparr>time_lock := lock_write i unlocked\<rparr>)"
  have "breaker_step oc s ?s1"
    using fail_lock[OF assms(2), of oc] assms(1) by (simp add: run_simps)
  moreover have "breaker_step oc ?s1 (goto i (ReportWait True)
    (s\<lparr>breaker := (breaker s)\<lparr>last_failure_time := Some (time_now s)\<rparr>\<rparr>))"
    using fail_stamp[of ?s1 i f oc] assms(1,3) by (simp add: run_simps)
  ultimately show ?thesis by (rule steps2)
qed

lemma run_open:
  assumes "state_lock s = unlocked" and "time_lock s = lock_write i unlocked" and "pcs s i = FailStateWait"
  shows "breaker_steps oc s (goto i (ReportWait True)
    (s\<lparr>breaker := (breaker s)\<lparr>cb_state := Open\<rparr>, time_lock := unlocked\<rparr>))"
proof -
  let ?s1 = "goto i FailBoth (s\<lparr>state_lock := lock_write i unlocked\<rparr>)"
  have "breaker_step oc s ?s1"
    using fail_lock_state[OF assms(3), of oc] assms(1) by (simp add: run_simps)
  moreover have "breaker_step oc ?s1 (goto i (ReportWait True)
    (s\<lparr>breaker := (breaker s)\<lparr>cb_state := Open\<rparr>, time_lock := unlocked\<rparr>))"
    using fail_open[of ?s1 i oc] assms(1,2) by (simp add: run_simps)
  ultimately show ?thesis by (rule steps2)
qed

lemma run_report:
  assumes "quiet s" and "pcs s i = ReportWait b"
  shows "breaker_steps oc s (goto i Idle s)"
proof -
  let ?s1 = "goto i (Reporting b) (s\<lparr>state_lock := lock_read i unlocked\<rparr>)"
  let ?s2 = "goto i (if b then Backoff else Idle) s"
  have "breaker_step oc s ?s1"
    using report_lock[OF assms(2), of oc] assms(1) by (simp add: run_simps)
  moreover have "breaker_step oc ?s1 ?s2"
    using report[of ?s1 i b oc] assms(1) by (simp add: run_simps)
  moreover have "breaker_steps oc ?s2 (goto i Idle s)"
    using give_up[of ?s2 i oc] by (cases b) auto
  ultimately show ?thesis by (blast intro: converse_rtranclp_into_rtranclp)
qed

lemma run_on_success:
  assumes "quiet s" and "pcs s i = Running"
  shows "breaker_steps oc s (goto i (ReportWait False) (s\<lparr>breaker := on_success (breaker s)\<rparr>))"
proof -
  let ?s2 = "goto i SuccHold (s\<lparr>state_lock := lock_write i unlocked\<rparr>)"
  let ?s3 = "goto i SuccStored (s\<lparr>breaker := (breaker s)\<lparr>consecutive_failures := 0\<rparr>,
    state_lock := lock_write i unlocked\<rparr>)"
  have "breaker_step oc s (goto i SuccWait s)"
    using assms(2) by (rule succ_call)
  moreover have "breaker_step oc (goto i SuccWait s) ?s2"
    using succ_lock[of "goto i SuccWait s" i oc] assms(1) by (simp add: run_simps)
  moreover have "breaker_step oc ?s2 ?s3"
    using succ_store[of ?s2 i oc] by (simp add: run_simps)
  moreover have "breaker_step oc ?s3 (goto i (ReportWait False) (s\<lparr>breaker := on_success (breaker s)\<rparr>))"
    using succ_close[of ?s3 i oc] assms(1) by (simp add: run_simps on_success_def)
  ultimately show ?thesis by (rule steps4)
qed

section \<open>The sequential definitions are the runs of a lone task\<close>

text \<open>
  What \<open>Circuit_Breaker\<close> says a method does in one step is what happens here when one task goes
  through the method and no other task moves meanwhile.
\<close>

lemma run_open_call:
  assumes "quiet s" and "pcs s i = Idle" and "cb_state (breaker s) = Open"
  shows "breaker_steps oc s
    (goto i CanRead (s\<lparr>state_lock := lock_write i unlocked, time_lock := lock_read i unlocked\<rparr>))"
proof (rule steps4)
  let ?s2 = "goto i CanHold (s\<lparr>state_lock := lock_write i unlocked\<rparr>)"
  let ?s3 = "goto i CanReadWait (s\<lparr>state_lock := lock_write i unlocked\<rparr>)"
  show "breaker_step oc s (goto i CanWait s)"
    using assms(2) by (rule can_call)
  show "breaker_step oc (goto i CanWait s) ?s2"
    using can_lock[of "goto i CanWait s" i oc] assms(1) by (simp add: run_simps)
  show "breaker_step oc ?s2 ?s3"
    using can_open[of ?s2 i oc] assms(3) by (simp add: run_simps)
  show "breaker_step oc ?s3
    (goto i CanRead (s\<lparr>state_lock := lock_write i unlocked, time_lock := lock_read i unlocked\<rparr>))"
    using can_lock_time[of ?s3 i oc] assms(1) by (simp add: run_simps)
qed

lemma run_half_open:
  assumes "quiet s" and "pcs s i = Idle" and "cb_state (breaker s) = Open"
    and "reset_elapsed (time_now s) (breaker s)"
  shows "breaker_steps oc s (goto i Running (s\<lparr>breaker := (breaker s)\<lparr>cb_state := HalfOpen\<rparr>\<rparr>))"
proof -
  let ?s4 = "goto i CanRead (s\<lparr>state_lock := lock_write i unlocked, time_lock := lock_read i unlocked\<rparr>)"
  have "breaker_step oc ?s4 (goto i Running (s\<lparr>breaker := (breaker s)\<lparr>cb_state := HalfOpen\<rparr>\<rparr>))"
    using can_admit[of ?s4 i oc] assms(1,4) by (simp add: run_simps)
  with run_open_call[OF assms(1-3)] show ?thesis by (rule rtranclp.rtrancl_into_rtrancl)
qed

lemma run_reject:
  assumes "quiet s" and "pcs s i = Idle" and "cb_state (breaker s) = Open"
    and "\<not> reset_elapsed (time_now s) (breaker s)"
  shows "breaker_steps oc s (goto i Idle s)"
proof -
  let ?s4 = "goto i CanRead (s\<lparr>state_lock := lock_write i unlocked, time_lock := lock_read i unlocked\<rparr>)"
  have "breaker_step oc ?s4 (goto i Idle s)"
    using can_reject[of ?s4 i oc] assms(1,4) by (simp add: run_simps)
  with run_open_call[OF assms(1-3)] show ?thesis by (rule rtranclp.rtrancl_into_rtrancl)
qed

lemma solo_can_execute:
  assumes "quiet s" and "pcs s i = Idle"
  shows "breaker_steps oc s
    (goto i (if fst (can_execute (time_now s) (breaker s)) = Inr () then Running else Idle)
      (s\<lparr>breaker := snd (can_execute (time_now s) (breaker s))\<rparr>))"
proof (cases "cb_state (breaker s) = Open")
  case True
  then show ?thesis
    using run_half_open[OF assms True] run_reject[OF assms True]
    by (cases "reset_elapsed (time_now s) (breaker s)")
      (auto simp: can_execute_def reset_elapsed_def split: option.splits)
next
  case False
  then have "can_execute (time_now s) (breaker s) = (Inr (), breaker s)"
    by (auto simp: can_execute_def split: circuit_state.splits)
  with run_can_execute[OF assms False] show ?thesis by simp
qed

lemma solo_on_failure:
  assumes "quiet s" and "pcs s i = Running" and "on_failure oc (time_now s) (breaker s) = (panics, cb)"
  shows "breaker_steps oc s (goto i (if panics then Crashed else ReportWait True) (s\<lparr>breaker := cb\<rparr>))"
proof (cases "oc \<and> consecutive_failures (breaker s) = - 1")
  case True
  then show ?thesis
    using fail_call[OF assms(2) refl, of oc] assms(3)
    by (auto simp: on_failure_def Let_def intro: r_into_rtranclp)
next
  case False
  let ?c = "consecutive_failures (breaker s) + 1"
  let ?b1 = "(breaker s)\<lparr>consecutive_failures := ?c\<rparr>"
  let ?b2 = "?b1\<lparr>last_failure_time := Some (time_now s)\<rparr>"
  let ?s1 = "goto i (FailWait ?c) (s\<lparr>breaker := ?b1\<rparr>)"
  let ?s2 = "goto i FailStateWait (s\<lparr>breaker := ?b2, time_lock := lock_write i unlocked\<rparr>)"
  have start: "breaker_steps oc s ?s1" using run_on_failure_wait[OF assms(1,2) False] .
  show ?thesis
  proof (cases "?c \<ge> failure_threshold (breaker s)")
    case True
    have "breaker_steps oc ?s1 ?s2"
      using run_on_failure_open[of ?s1 i ?c oc] assms(1) True by (simp add: run_simps)
    also have "breaker_steps oc ?s2 (goto i (ReportWait True) (s\<lparr>breaker := ?b2\<lparr>cb_state := Open\<rparr>\<rparr>))"
      using run_open[of ?s2 i oc] assms(1) by (simp add: run_simps)
    finally show ?thesis
      using start True False assms(3) by (auto simp: on_failure_def Let_def)
  next
    case below: False
    have "breaker_steps oc ?s1 (goto i (ReportWait True) (s\<lparr>breaker := ?b2\<rparr>))"
      using run_on_failure_below[of ?s1 i ?c oc] assms(1) below by (simp add: run_simps)
    with start below False assms(3) show ?thesis
      by (auto simp: on_failure_def Let_def)
  qed
qed

section \<open>Runs that show the races\<close>

text \<open>A whole call of task \<open>i\<close> that fails once and gives up.\<close>

lemma run_failing_call:
  assumes "quiet s" and "pcs s i = Idle" and "cb_state (breaker s) \<noteq> Open"
    and "consecutive_failures (breaker s) \<noteq> - 1"
  shows "breaker_steps oc s (s\<lparr>breaker := snd (on_failure oc (time_now s) (breaker s))\<rparr>)"
proof -
  let ?b = "snd (on_failure oc (time_now s) (breaker s))"
  have fine: "on_failure oc (time_now s) (breaker s) = (False, ?b)"
    using assms(4) by (auto simp: on_failure_def Let_def)
  have idle: "goto i Idle (s\<lparr>breaker := ?b\<rparr>) = s\<lparr>breaker := ?b\<rparr>"
    using assms(2) by (cases s) (simp add: goto_def fun_upd_idem)
  have "breaker_steps oc s (goto i Running s)"
    using assms(1-3) by (rule run_can_execute)
  also have "breaker_steps oc (goto i Running s) (goto i (ReportWait True) (s\<lparr>breaker := ?b\<rparr>))"
    using solo_on_failure[of "goto i Running s" i oc False ?b] assms(1) fine
    by (simp add: update_order)
  also have "breaker_steps oc \<dots> (s\<lparr>breaker := ?b\<rparr>)"
    using run_report[of "goto i (ReportWait True) (s\<lparr>breaker := ?b\<rparr>)" i True oc] assms(1)
    by (simp add: idle)
  finally show ?thesis .
qed

text \<open>A call of task \<open>i\<close> that succeeds at once.\<close>

lemma run_succeeding_call:
  assumes "quiet s" and "pcs s i = Idle" and "cb_state (breaker s) \<noteq> Open"
  shows "breaker_steps oc s (s\<lparr>breaker := on_success (breaker s)\<rparr>)"
proof -
  let ?b = "on_success (breaker s)"
  have idle: "goto i Idle (s\<lparr>breaker := ?b\<rparr>) = s\<lparr>breaker := ?b\<rparr>"
    using assms(2) by (cases s) (simp add: goto_def fun_upd_idem)
  have "breaker_steps oc s (goto i Running s)"
    using assms by (rule run_can_execute)
  also have "breaker_steps oc (goto i Running s) (goto i (ReportWait False) (s\<lparr>breaker := ?b\<rparr>))"
    using run_on_success[of "goto i Running s" i oc] assms(1) by (simp add: run_simps)
  also have "breaker_steps oc \<dots> (s\<lparr>breaker := ?b\<rparr>)"
    using run_report[of "goto i (ReportWait False) (s\<lparr>breaker := ?b\<rparr>)" i False oc] assms(1)
    by (simp add: idle)
  finally show ?thesis .
qed

text \<open>Task 0 can bring the breaker to any number of failures below the threshold.\<close>

definition after_failures :: "u32 \<Rightarrow> duration \<Rightarrow> u32 \<Rightarrow> shared \<Rightarrow> bool" where
  "after_failures threshold reset n s \<longleftrightarrow>
     quiet s \<and> pcs s = (\<lambda>_. Idle) \<and> time_now s = 0 \<and> cb_state (breaker s) = Closed
     \<and> consecutive_failures (breaker s) = n \<and> failure_threshold (breaker s) = threshold
     \<and> reset_timeout (breaker s) = reset"

lemma after_failures_exists:
  assumes "n < unat threshold"
  shows "\<exists>s. reachable oc threshold reset s \<and> after_failures threshold reset (of_nat n) s"
  using assms
proof (induction n)
  case 0
  show ?case
    by (intro exI[of _ "init_shared threshold reset"])
      (simp add: reachable_def after_failures_def init_shared_def quiet_def cb_new_def)
next
  case (Suc n)
  then obtain s where s: "reachable oc threshold reset s" "after_failures threshold reset (of_nat n) s"
    by auto
  have "unat threshold < 2 ^ LENGTH(32)" by (rule unsigned_less)
  then have bound: "Suc n < 2 ^ 32" using Suc.prems by simp
  then have n: "unat (of_nat n :: u32) = n" by (simp add: unat_of_nat)
  have succ: "(of_nat n :: u32) + 1 < threshold"
    using Suc.prems bound unat_succ[of "of_nat n"] unfolding word_less_nat_alt n by simp
  have top: "(of_nat n :: u32) \<noteq> - 1"
  proof
    assume "(of_nat n :: u32) = - 1"
    then have "n = 2 ^ 32 - 1" using n by (simp only: u32_max)
    with bound show False by simp
  qed
  have "breaker_steps oc s (s\<lparr>breaker := snd (on_failure oc (time_now s) (breaker s))\<rparr>)"
    using s(2) succ top by (intro run_failing_call) (simp_all add: after_failures_def)
  then have "reachable oc threshold reset (s\<lparr>breaker := snd (on_failure oc (time_now s) (breaker s))\<rparr>)"
    using s(1) unfolding reachable_def by (rule rtranclp_trans[rotated])
  moreover have "after_failures threshold reset (of_nat (Suc n))
      (s\<lparr>breaker := snd (on_failure oc (time_now s) (breaker s))\<rparr>)"
    using s(2) succ top
    by (auto simp: after_failures_def on_failure_def Let_def not_le add.commute)
  ultimately show ?case by blast
qed

lemma top_minus_1: "threshold \<noteq> 0 \<Longrightarrow> unat (threshold - 1) + 1 = unat threshold" for threshold :: u32
  using unat_gt_0[of threshold] by (simp add: unat_minus_one)

lemma one_below_threshold:
  assumes "threshold \<noteq> 0"
  shows "\<exists>n s. n + 1 = threshold \<and> n \<noteq> - 1
    \<and> reachable oc threshold reset s \<and> after_failures threshold reset n s"
proof -
  have "unat (threshold - 1) < unat threshold" using top_minus_1[OF assms] by simp
  from after_failures_exists[OF this, of oc reset] show ?thesis
    using assms by (intro exI[of _ "threshold - 1"]) auto
qed

text \<open>
  The deadlock. Task 1 is admitted below the threshold, task 0 opens the breaker, task 1 fails
  and stops at the state lock with the time lock in hand, task 2 calls and stops at the time
  lock with the state lock in hand.
\<close>

lemma fail_beside_open:
  assumes "quiet s" and "pcs s 1 = Running" and "pcs s 2 = Idle"
    and "cb_state (breaker s) = Open"
    and "consecutive_failures (breaker s) + 1 \<ge> failure_threshold (breaker s)"
    and "consecutive_failures (breaker s) \<noteq> - 1"
  shows "\<exists>t. breaker_steps oc s t \<and> deadlocked 2 1 t \<and> (\<forall>k. k \<noteq> 1 \<and> k \<noteq> 2 \<longrightarrow> pcs t k = pcs s k)"
proof -
  let ?c = "consecutive_failures (breaker s) + 1"
  let ?b1 = "(breaker s)\<lparr>consecutive_failures := ?c\<rparr>"
  let ?b2 = "?b1\<lparr>last_failure_time := Some (time_now s)\<rparr>"
  let ?s1 = "goto 1 (FailWait ?c) (s\<lparr>breaker := ?b1\<rparr>)"
  let ?s2 = "goto 1 FailStateWait (s\<lparr>breaker := ?b2, time_lock := lock_write 1 unlocked\<rparr>)"
  let ?s3 = "goto 2 CanHold (?s2\<lparr>state_lock := lock_write 2 unlocked\<rparr>)"
  let ?t = "goto 2 CanReadWait (?s2\<lparr>state_lock := lock_write 2 unlocked\<rparr>)"
  have "breaker_steps oc s ?s1"
    using run_on_failure_wait[of s 1 oc] assms by simp
  also have "breaker_steps oc ?s1 ?s2"
    using run_on_failure_open[of ?s1 1 ?c oc] assms by (simp add: run_simps)
  also have "breaker_steps oc ?s2 ?t"
  proof (rule steps3)
    show "breaker_step oc ?s2 (goto 2 CanWait ?s2)"
      using assms(3) by (intro can_call) simp
    show "breaker_step oc (goto 2 CanWait ?s2) ?s3"
      using can_lock[of "goto 2 CanWait ?s2" 2 oc] assms(1) by (simp add: run_simps)
    show "breaker_step oc ?s3 ?t"
      using can_open[of ?s3 2 oc] assms(4) by (simp add: run_simps)
  qed
  finally have "breaker_steps oc s ?t" .
  then show ?thesis by (intro exI[of _ ?t]) (simp add: deadlocked_def)
qed

lemma deadlock_reachable:
  assumes "threshold \<noteq> 0" and "threshold \<noteq> - 1"
  shows "\<exists>s. reachable oc threshold reset s \<and> deadlocked 2 1 s
    \<and> (\<forall>k. k \<noteq> 1 \<and> k \<noteq> 2 \<longrightarrow> pcs s k = Idle)"
proof -
  obtain n s where n: "n + 1 = threshold" "n \<noteq> - 1"
    and s: "reachable oc threshold reset s" "after_failures threshold reset n s"
    using one_below_threshold[OF assms(1), of oc reset] by blast
  note s' = s(2)[unfolded after_failures_def]
  let ?s1 = "goto 1 Running s"
  let ?b = "snd (on_failure oc (time_now s) (breaker s))"
  let ?s2 = "goto 1 Running (s\<lparr>breaker := ?b\<rparr>)"
  have b: "cb_state ?b = Open" "consecutive_failures ?b = threshold" "failure_threshold ?b = threshold"
    using s' n by (auto simp: on_failure_def Let_def)
  have above: "threshold \<le> threshold + 1"
    using u32_below_max[OF assms(2)] by (simp add: word_le_nat_alt unat_succ)
  have "breaker_steps oc s ?s1"
    using s' by (intro run_can_execute) simp_all
  also have "breaker_steps oc ?s1 ?s2"
    using run_failing_call[of ?s1 0 oc] s' n by (simp add: update_order)
  finally have "breaker_steps oc s ?s2" .
  moreover obtain t where "breaker_steps oc ?s2 t" "deadlocked 2 1 t"
    "\<forall>k. k \<noteq> 1 \<and> k \<noteq> 2 \<longrightarrow> pcs t k = pcs ?s2 k"
    using fail_beside_open[of ?s2 oc] s' b above assms(2) by auto
  ultimately show ?thesis
    using s(1) s' unfolding reachable_def by (intro exI[of _ t]) (auto intro: rtranclp_trans)
qed

text \<open>
  A success does not cancel a failure that is under way: task 1 counts the failure that
  reaches the threshold, task 0 succeeds and closes the breaker, then task 1 opens it with no
  failure counted and nobody inside a call.
\<close>

lemma stale_failure_reachable:
  assumes "threshold \<noteq> 0"
  shows "\<exists>s. reachable oc threshold reset s \<and> (\<forall>k. pcs s k = Idle)
    \<and> cb_state (breaker s) = Open \<and> consecutive_failures (breaker s) = 0"
proof -
  obtain n s where n: "n + 1 = threshold" "n \<noteq> - 1"
    and s: "reachable oc threshold reset s" "after_failures threshold reset n s"
    using one_below_threshold[OF assms(1), of oc reset] by blast
  note s' = s(2)[unfolded after_failures_def]
  let ?b1 = "(breaker s)\<lparr>consecutive_failures := threshold\<rparr>"
  let ?b2 = "on_success ?b1"
  let ?b3 = "?b2\<lparr>last_failure_time := Some (time_now s)\<rparr>"
  let ?s1 = "goto 1 Running s"
  let ?s2 = "goto 1 (FailWait threshold) (s\<lparr>breaker := ?b1\<rparr>)"
  let ?s3 = "goto 1 (FailWait threshold) (s\<lparr>breaker := ?b2\<rparr>)"
  let ?s4 = "goto 1 FailStateWait (s\<lparr>breaker := ?b3, time_lock := lock_write 1 unlocked\<rparr>)"
  let ?s5 = "goto 1 (ReportWait True) (s\<lparr>breaker := ?b3\<lparr>cb_state := Open\<rparr>\<rparr>)"
  let ?s6 = "goto 1 Idle (s\<lparr>breaker := ?b3\<lparr>cb_state := Open\<rparr>\<rparr>)"
  have "breaker_steps oc s ?s1"
    using s' by (intro run_can_execute) simp_all
  also have "breaker_steps oc ?s1 ?s2"
    using run_on_failure_wait[of ?s1 1 oc] s' n by (simp add: run_simps)
  also have "breaker_steps oc ?s2 ?s3"
    using run_succeeding_call[of ?s2 0 oc] s' by (simp add: run_simps)
  also have "breaker_steps oc ?s3 ?s4"
    using run_on_failure_open[of ?s3 1 threshold oc] s' by (simp add: run_simps)
  also have "breaker_steps oc ?s4 ?s5"
    using run_open[of ?s4 1 oc] s' by (simp add: run_simps)
  also have "breaker_steps oc ?s5 ?s6"
    using run_report[of ?s5 1 True oc] s' by (simp add: run_simps)
  finally have "breaker_steps oc s ?s6" .
  then have "reachable oc threshold reset ?s6"
    using s(1) unfolding reachable_def by (rule rtranclp_trans[rotated])
  then show ?thesis using s' by (intro exI[of _ ?s6]) simp
qed

text \<open>
  The half-open state admits every caller: when the reset timeout has passed, any number of
  calls can be running their operation at once.
\<close>

lemma open_reachable:
  assumes "threshold \<noteq> 0"
  shows "\<exists>s. reachable oc threshold reset s \<and> quiet s \<and> (\<forall>k. pcs s k = Idle)
    \<and> cb_state (breaker s) = Open \<and> reset_elapsed (time_now s) (breaker s)"
proof -
  obtain n s where n: "n + 1 = threshold" "n \<noteq> - 1"
    and s: "reachable oc threshold reset s" "after_failures threshold reset n s"
    using one_below_threshold[OF assms, of oc reset] by blast
  note s' = s(2)[unfolded after_failures_def]
  let ?b = "snd (on_failure oc (time_now s) (breaker s))"
  let ?s1 = "s\<lparr>breaker := ?b\<rparr>"
  let ?s2 = "?s1\<lparr>time_now := time_now ?s1 + reset\<rparr>"
  have b: "cb_state ?b = Open" "last_failure_time ?b = Some 0" "reset_timeout ?b = reset"
    using s' n by (auto simp: on_failure_def Let_def)
  have "breaker_steps oc s ?s1"
    using run_failing_call[of s 0 oc] s' n by simp
  also have "breaker_step oc ?s1 ?s2" by (rule tick)
  finally have "reachable oc threshold reset ?s2"
    using s(1) unfolding reachable_def by (meson rtranclp_trans)
  moreover have "reset_elapsed (time_now ?s2) (breaker ?s2)"
    using b s' by (simp add: reset_elapsed_def elapsed_def)
  moreover have "quiet ?s2" using s' by (simp add: quiet_def)
  ultimately show ?thesis using b s' by (intro exI[of _ ?s2]) simp
qed

lemma half_open_crowd:
  assumes "threshold \<noteq> 0"
  shows "\<exists>s. reachable oc threshold reset s \<and> quiet s \<and> cb_state (breaker s) = HalfOpen
    \<and> (\<forall>k. pcs s k = (if k < Suc n then Running else Idle))"
proof (induction n)
  case 0
  from open_reachable[OF assms, of oc reset] obtain s where
    s: "reachable oc threshold reset s" "quiet s" "\<forall>k. pcs s k = Idle"
      "cb_state (breaker s) = Open" "reset_elapsed (time_now s) (breaker s)" by blast
  have "breaker_steps oc s (goto 0 Running (s\<lparr>breaker := (breaker s)\<lparr>cb_state := HalfOpen\<rparr>\<rparr>))"
    using s by (intro run_half_open) simp_all
  with s show ?case
    unfolding reachable_def
    by (intro exI[of _ "goto 0 Running (s\<lparr>breaker := (breaker s)\<lparr>cb_state := HalfOpen\<rparr>\<rparr>)"])
      (auto intro: rtranclp_trans)
next
  case (Suc n)
  then obtain s where
    s: "reachable oc threshold reset s" "quiet s" "cb_state (breaker s) = HalfOpen"
      "\<forall>k. pcs s k = (if k < Suc n then Running else Idle)" by blast
  have "breaker_steps oc s (goto (Suc n) Running s)"
    using s by (intro run_can_execute) simp_all
  with s show ?case
    unfolding reachable_def
    by (intro exI[of _ "goto (Suc n) Running s"]) (auto intro: rtranclp_trans)
qed

end
