(* ===== verification/Breaker_Cancellation.thy ===== *)
theory Breaker_Cancellation
  imports Breaker_Interleaving
begin

text \<open>
  Calls that are dropped while they are under way. The future that \<open>ResilientExecutor::execute\<close>
  of \<^verbatim>\<open>rust/src/resilience.rs\<close> returns can be dropped at any of its \<open>await\<close>s (a client's
  \<open>timeout\<close> or \<open>select!\<close>, a connection that goes away): the guards it holds are released, and
  none of the code behind that \<open>await\<close> runs.
\<close>

inductive breaker_drop :: "nat \<Rightarrow> shared \<Rightarrow> shared \<Rightarrow> bool" for i :: nat where
  drop_can_wait: "pcs s i = CanWait \<Longrightarrow> breaker_drop i s (goto i Idle s)"
| drop_can_read_wait: "pcs s i = CanReadWait \<Longrightarrow>
    breaker_drop i s (goto i Idle (s\<lparr>state_lock := unlock_write (state_lock s)\<rparr>))"
| drop_running: "pcs s i = Running \<Longrightarrow> breaker_drop i s (goto i Idle s)"
| drop_succ_wait: "pcs s i = SuccWait \<Longrightarrow> breaker_drop i s (goto i Idle s)"
| drop_fail_wait: "pcs s i = FailWait failures \<Longrightarrow> breaker_drop i s (goto i Idle s)"
| drop_fail_state_wait: "pcs s i = FailStateWait \<Longrightarrow>
    breaker_drop i s (goto i Idle (s\<lparr>time_lock := unlock_write (time_lock s)\<rparr>))"
| drop_report_wait: "pcs s i = ReportWait failed \<Longrightarrow> breaker_drop i s (goto i Idle s)"
| drop_backoff: "pcs s i = Backoff \<Longrightarrow> breaker_drop i s (goto i Idle s)"

inductive cancel_step :: "bool \<Rightarrow> shared \<Rightarrow> shared \<Rightarrow> bool" for oc :: bool where
  move: "breaker_step oc s t \<Longrightarrow> cancel_step oc s t"
| cancel: "breaker_drop i s t \<Longrightarrow> cancel_step oc s t"

definition cancel_reachable :: "bool \<Rightarrow> u32 \<Rightarrow> duration \<Rightarrow> shared \<Rightarrow> bool" where
  "cancel_reachable oc threshold reset s = (cancel_step oc)\<^sup>*\<^sup>* (init_shared threshold reset) s"

lemma reachable_cancel:
  assumes "reachable oc threshold reset s"
  shows "cancel_reachable oc threshold reset s"
  using rtranclp_mono[of "breaker_step oc" "cancel_step oc"] assms move
  unfolding reachable_def cancel_reachable_def by blast

section \<open>A dropped call gives its locks back\<close>

lemma locks_ok_drop: "breaker_drop i s t \<Longrightarrow> locks_ok s \<Longrightarrow> locks_ok t"
  unfolding locks_ok_def
  by (induction rule: breaker_drop.induct) (simp_all add: holds_upd holds_same lock_inv_ops)

lemma breaker_ok_drop: "breaker_drop i s t \<Longrightarrow> breaker_ok s \<Longrightarrow> breaker_ok t"
  by (induction rule: breaker_drop.induct) (auto simp: breaker_ok_def)

lemma cancel_reachable_ok:
  assumes "cancel_reachable oc threshold reset s"
  shows "locks_ok s" and "breaker_ok s"
proof -
  have "(cancel_step oc)\<^sup>*\<^sup>* (init_shared threshold reset) s"
    using assms by (simp add: cancel_reachable_def)
  then have "locks_ok s \<and> breaker_ok s"
    by (induction rule: rtranclp_induct)
      (auto intro: locks_ok_init breaker_ok_init
        elim!: cancel_step.cases dest: locks_ok_step breaker_ok_step locks_ok_drop breaker_ok_drop)
  then show "locks_ok s" and "breaker_ok s" by simp_all
qed

text \<open>Of two calls that wait for each other, either can be dropped, and the other goes on.\<close>

lemma dropped_reader_frees:
  assumes "locks_ok s" and "deadlocked i j s"
  shows "\<exists>t. breaker_drop i s t \<and> can_move oc j t"
proof -
  let ?t = "goto i Idle (s\<lparr>state_lock := unlock_write (state_lock s)\<rparr>)"
  have p: "pcs s i = CanReadWait" "pcs s j = FailStateWait" "j \<noteq> i"
    using assms(2) by (auto simp: deadlocked_def)
  have drop: "breaker_drop i s ?t" using p(1) by (rule drop_can_read_wait)
  have "\<not> reads_state (pcs s k)" for k
    using state_lock_exclusive(2)[OF assms(1), of i k] p(1) by simp
  then have "can_write (state_lock ?t)"
    using locks_okD(1)[OF assms(1)] by (auto simp: lock_inv_def can_write_def unlock_write_def)
  then have "can_move oc j ?t"
    using p fail_lock_state[of ?t j oc] by (intro can_moveI) auto
  with drop show ?thesis by blast
qed

lemma dropped_opener_frees:
  assumes "deadlocked i j s"
  shows "\<exists>t. breaker_drop j s t \<and> can_move oc i t"
proof -
  let ?t = "goto j Idle (s\<lparr>time_lock := unlock_write (time_lock s)\<rparr>)"
  have p: "pcs s i = CanReadWait" "pcs s j = FailStateWait" "i \<noteq> j"
    using assms by (auto simp: deadlocked_def)
  have drop: "breaker_drop j s ?t" using p(2) by (rule drop_fail_state_wait)
  have "can_read (time_lock ?t)" by (simp add: can_read_def unlock_write_def)
  then have "can_move oc i ?t"
    using p can_lock_time[of ?t i oc] by (intro can_moveI) auto
  with drop show ?thesis by blast
qed

section \<open>The threshold opens the breaker, unless the call is dropped\<close>

text \<open>
  A call whose bookkeeping will open the breaker. While no call is dropped, a count at the
  threshold has such a call under way, or the breaker is open, or a call it let through in the
  half-open state has yet to report; a success that has reset the count and holds the state lock
  rules out the last two.
\<close>

fun opens_at :: "u32 \<Rightarrow> pc \<Rightarrow> bool" where
  "opens_at threshold (FailWait failures) = (failures \<ge> threshold)"
| "opens_at threshold (FailHold failures) = (failures \<ge> threshold)"
| "opens_at threshold FailStateWait = True"
| "opens_at threshold FailBoth = True"
| "opens_at threshold _ = False"

definition will_open :: "shared \<Rightarrow> nat \<Rightarrow> bool" where
  "will_open s i = opens_at (failure_threshold (breaker s)) (pcs s i)"

definition trial :: "shared \<Rightarrow> nat \<Rightarrow> bool" where
  "trial s i \<longleftrightarrow> pcs s i \<in> {Running, SuccWait, SuccHold}"

definition threshold_ok :: "shared \<Rightarrow> bool" where
  "threshold_ok s \<longleftrightarrow>
     (consecutive_failures (breaker s) \<ge> failure_threshold (breaker s) \<longrightarrow>
        (\<exists>i. will_open s i)
        \<or> (\<forall>k. pcs s k \<noteq> SuccStored)
          \<and> (cb_state (breaker s) = Open \<or> cb_state (breaker s) = HalfOpen \<and> (\<exists>i. trial s i)))"

lemma threshold_step [simp]:
  "breaker_step oc s t \<Longrightarrow> failure_threshold (breaker t) = failure_threshold (breaker s)"
  by (induction rule: breaker_step.induct) simp_all

lemma will_open_goto:
  "failure_threshold (breaker s') = failure_threshold (breaker s) \<Longrightarrow> pcs s' = pcs s \<Longrightarrow>
    will_open s k \<Longrightarrow> \<not> will_open s i \<or> will_open (goto i p s') i \<Longrightarrow> will_open (goto i p s') k"
  by (cases "k = i") (auto simp: will_open_def)

lemma threshold_ok_opening: "will_open s i \<Longrightarrow> threshold_ok s"
  by (auto simp: threshold_ok_def)

lemma threshold_ok_below:
  "\<not> consecutive_failures (breaker s) \<ge> failure_threshold (breaker s) \<Longrightarrow> threshold_ok s"
  by (simp add: threshold_ok_def)

text \<open>A step that changes neither the count nor the state, and ends no duty of its task.\<close>

lemma threshold_ok_goto:
  assumes "threshold_ok s"
    and "breaker s' = breaker s \<or> (\<exists>x. breaker s' = (breaker s)\<lparr>last_failure_time := x\<rparr>)"
    and "pcs s' = pcs s" and "p \<noteq> SuccStored"
    and "will_open s i \<Longrightarrow> will_open (goto i p s') i" and "trial s i \<Longrightarrow> trial (goto i p s') i"
  shows "threshold_ok (goto i p s')"
proof (cases "\<exists>k. will_open s k")
  case True
  then obtain k where "will_open s k" ..
  with assms have "will_open (goto i p s') k" by (intro will_open_goto) auto
  then show ?thesis by (rule threshold_ok_opening)
next
  case False
  have t: "trial (goto i p s') k" if "trial s k" for k
    using that assms(3,6) by (cases "k = i") (auto simp: trial_def)
  show ?thesis using False assms(1-4) t by (auto simp: threshold_ok_def)
qed

lemma threshold_ok_step:
  assumes "breaker_step oc s t" and "locks_ok s" and "threshold_ok s"
    and "failure_threshold (breaker s) \<noteq> 0"
  shows "threshold_ok t"
  using assms
proof (induction rule: breaker_step.induct)
  case (tick s d)
  then show ?case by (auto simp: threshold_ok_def will_open_def trial_def)
next
  case (can_admit s i)
  let ?t = "goto i Running (s\<lparr>breaker := (breaker s)\<lparr>cb_state := HalfOpen\<rparr>,
      state_lock := unlock_write (state_lock s), time_lock := unlock_read i (time_lock s)\<rparr>)"
  show ?case
  proof (cases "\<exists>k. will_open s k")
    case True
    then obtain k where "will_open s k" ..
    with can_admit(1) have "will_open ?t k"
      by (intro will_open_goto) (auto simp: will_open_def)
    then show ?thesis by (rule threshold_ok_opening)
  next
    case False
    have "pcs s k \<noteq> SuccStored" for k
      using state_lock_exclusive(1)[OF can_admit(3), of i k] can_admit(1) by auto
    moreover have "trial ?t i" by (simp add: trial_def)
    ultimately show ?thesis by (auto simp: threshold_ok_def)
  qed
next
  case (succ_store s i)
  then show ?case by (intro threshold_ok_below) simp
next
  case (succ_close s i)
  show ?case
  proof (cases "consecutive_failures (breaker s) \<ge> failure_threshold (breaker s)")
    case True
    with succ_close(1,3) obtain k where k: "will_open s k"
      by (auto simp: threshold_ok_def)
    then have "k \<noteq> i" using succ_close(1) by (auto simp: will_open_def)
    with k show ?thesis by (intro threshold_ok_opening[of _ k]) (auto simp: will_open_def)
  next
    case False
    then show ?thesis by (intro threshold_ok_below) simp
  qed
next
  case (fail_call s i old)
  show ?case
  proof (cases "old + 1 \<ge> failure_threshold (breaker s)")
    case True
    then have "\<not> (oc \<and> old = - 1)" using fail_call(5) by auto
    with True show ?thesis by (intro threshold_ok_opening[of _ i]) (simp add: will_open_def)
  next
    case False
    then show ?thesis by (intro threshold_ok_below) simp
  qed
next
  case (fail_open s i)
  have "pcs s k \<noteq> SuccStored" for k
    using state_lock_exclusive(1)[OF fail_open(2), of i k] fail_open(1) by auto
  then show ?case by (auto simp: threshold_ok_def)
qed (erule threshold_ok_goto; auto simp: will_open_def trial_def split: if_splits)+

lemma reachable_threshold:
  assumes "reachable oc threshold reset s" and "threshold \<noteq> 0"
  shows "failure_threshold (breaker s) = threshold \<and> locks_ok s \<and> threshold_ok s"
proof -
  have "breaker_steps oc (init_shared threshold reset) s"
    using assms(1) by (simp add: reachable_def)
  then show ?thesis
  proof (induction rule: rtranclp_induct)
    case base
    have "threshold_ok (init_shared threshold reset)"
      using assms(2) by (intro threshold_ok_below) (simp add: init_shared_def cb_new_def)
    then show ?case by (simp add: locks_ok_init) (simp add: init_shared_def cb_new_def)
  next
    case (step s t)
    then show ?case using assms(2) by (auto intro: locks_ok_step threshold_ok_step)
  qed
qed

text \<open>
  Where the outcome of a call is still to reach the breaker: it runs its operation, or is in
  \<open>on_success\<close> or \<open>on_failure\<close>.
\<close>

fun undecided :: "pc \<Rightarrow> bool" where
  "undecided Running = True"
| "undecided SuccWait = True"
| "undecided SuccHold = True"
| "undecided SuccStored = True"
| "undecided (FailWait failures) = True"
| "undecided (FailHold failures) = True"
| "undecided FailStateWait = True"
| "undecided FailBoth = True"
| "undecided _ = False"

lemma decidedD:
  assumes "\<not> undecided (pcs s i)"
  shows "\<not> will_open s i" and "\<not> trial s i" and "pcs s i \<noteq> SuccStored"
  using assms by (cases "pcs s i"; simp add: will_open_def trial_def)+

lemma counted_to_threshold_is_open:
  assumes "reachable oc threshold reset s" and "threshold \<noteq> 0"
    and "consecutive_failures (breaker s) \<ge> threshold" and "\<And>i. \<not> undecided (pcs s i)"
  shows "cb_state (breaker s) = Open"
  using reachable_threshold[OF assms(1,2)] assms(3) decidedD[OF assms(4)]
  by (auto simp: threshold_ok_def)

lemma threshold_reachable:
  assumes "threshold \<noteq> 0"
  shows "\<exists>s. reachable oc threshold reset s \<and> (\<forall>k. pcs s k = Idle)
    \<and> consecutive_failures (breaker s) = threshold"
proof -
  obtain n s where n: "n + 1 = threshold" "n \<noteq> - 1"
    and s: "reachable oc threshold reset s" "after_failures threshold reset n s"
    using one_below_threshold[OF assms, of oc reset] by blast
  note s' = s(2)[unfolded after_failures_def]
  let ?b = "snd (on_failure oc (time_now s) (breaker s))"
  have "breaker_steps oc s (s\<lparr>breaker := ?b\<rparr>)"
    using run_failing_call[of s 0 oc] s' n by simp
  then have "reachable oc threshold reset (s\<lparr>breaker := ?b\<rparr>)"
    using s(1) unfolding reachable_def by (rule rtranclp_trans[rotated])
  moreover have "consecutive_failures ?b = threshold"
    using s' n by (auto simp: on_failure_def Let_def)
  ultimately show ?thesis using s' by (intro exI[of _ "s\<lparr>breaker := ?b\<rparr>"]) simp
qed

text \<open>
  A dropped call breaks this: task 1 counts the failure that reaches the threshold and is
  dropped before it can open the breaker.
\<close>

lemma dropped_failure_reachable:
  assumes "threshold \<noteq> 0"
  shows "\<exists>s. cancel_reachable oc threshold reset s \<and> quiet s \<and> (\<forall>k. pcs s k = Idle)
    \<and> cb_state (breaker s) = Closed \<and> consecutive_failures (breaker s) = threshold"
proof -
  obtain n s where n: "n + 1 = threshold" "n \<noteq> - 1"
    and s: "reachable oc threshold reset s" "after_failures threshold reset n s"
    using one_below_threshold[OF assms, of oc reset] by blast
  note s' = s(2)[unfolded after_failures_def]
  let ?s1 = "goto 1 Running s"
  let ?s2 = "goto 1 (FailWait threshold) (s\<lparr>breaker := (breaker s)\<lparr>consecutive_failures := threshold\<rparr>\<rparr>)"
  let ?s3 = "goto 1 Idle ?s2"
  have "breaker_steps oc s ?s1"
    using s' by (intro run_can_execute) simp_all
  also have "breaker_steps oc ?s1 ?s2"
    using run_on_failure_wait[of ?s1 1 oc] s' n by (simp add: run_simps)
  finally have "reachable oc threshold reset ?s2"
    using s(1) unfolding reachable_def by (meson rtranclp_trans)
  then have "cancel_reachable oc threshold reset ?s2" by (rule reachable_cancel)
  moreover have "cancel_step oc ?s2 ?s3"
    by (intro cancel[of 1] drop_fail_wait[of _ _ threshold]) simp
  ultimately have "cancel_reachable oc threshold reset ?s3"
    unfolding cancel_reachable_def by (rule rtranclp.rtrancl_into_rtrancl)
  then show ?thesis using s' by (intro exI[of _ ?s3]) simp
qed

end
