(* ===== verification/F64_Round.thy ===== *)
theory F64_Round
  imports Complex_Main "HOL-Library.Log_Nat" Store_Prelude
begin

text \<open>
  The \<open>f64\<close> arithmetic of the retry delay. Every value there is zero or lies between \<open>2\<^sup>-\<^sup>7\<close>
  and \<open>2\<^sup>1\<^sup>3\<^sup>0\<close>, far from overflow and from subnormals, so an operation is the exact operation
  on rationals followed by rounding to the nearest 53-bit significand, ties to even. Casts
  between integers and floats are those of \<open>as\<close>: rounding upwards, saturating truncation down.
\<close>

text \<open>The exponent of the leading binary digit of a positive rational.\<close>

definition lead_exp :: "rat \<Rightarrow> int" where
  "lead_exp x = (case quotient_of x of (p, q) \<Rightarrow>
     let k = bitlen p - bitlen q in if 2 powi k \<le> x then k else k - 1)"

definition round_even :: "rat \<Rightarrow> int" where
  "round_even z = (let n = \<lfloor>z\<rfloor>; f = z - of_int n in
     if f < 1 / 2 \<or> f = 1 / 2 \<and> even n then n else n + 1)"

definition f64_round :: "rat \<Rightarrow> rat" where
  "f64_round x = (if x \<le> 0 then 0 else
     (let e = lead_exp x - 52 in of_int (round_even (x * 2 powi (- e))) * 2 powi e))"

definition f64_of_nat :: "nat \<Rightarrow> rat" where
  "f64_of_nat n = f64_round (of_nat n)"

definition f64_mul :: "rat \<Rightarrow> rat \<Rightarrow> rat" where
  "f64_mul x y = f64_round (x * y)"

definition f64_add :: "rat \<Rightarrow> rat \<Rightarrow> rat" where
  "f64_add x y = f64_round (x + y)"

definition f64_div :: "rat \<Rightarrow> rat \<Rightarrow> rat" where
  "f64_div x y = f64_round (x / y)"

text \<open>The remainder \<open>%\<close> of two positive values is exact.\<close>

definition f64_rem :: "rat \<Rightarrow> rat \<Rightarrow> rat" where
  "f64_rem x y = x - y * of_int \<lfloor>x / y\<rfloor>"

definition f64_as_u64 :: "rat \<Rightarrow> u64" where
  "f64_as_u64 x = (if 2 ^ 64 \<le> x then - 1 else of_nat (nat \<lfloor>x\<rfloor>))"

section \<open>Rounding to an integer\<close>

lemma round_even_of_int [simp]: "round_even (of_int n) = n"
  by (simp add: round_even_def)

lemma round_even_bounds: "\<lfloor>z\<rfloor> \<le> round_even z" "round_even z \<le> \<lfloor>z\<rfloor> + 1"
  by (simp_all add: round_even_def Let_def)

lemma round_even_mono: assumes "x \<le> y" shows "round_even x \<le> round_even y"
proof (cases "\<lfloor>x\<rfloor> = \<lfloor>y\<rfloor>")
  case True
  with assms show ?thesis by (auto simp: round_even_def Let_def)
next
  case False
  with floor_mono[OF assms] have "\<lfloor>x\<rfloor> + 1 \<le> \<lfloor>y\<rfloor>" by linarith
  with round_even_bounds(2)[of x] round_even_bounds(1)[of y] show ?thesis by linarith
qed

section \<open>The leading digit\<close>

lemma powi_diff_rat: "(2::rat) powi (a - b) = 2 powi a / 2 powi b"
  by (rule power_int_diff) simp

lemma lead_exp_bounds:
  assumes "0 < x"
  shows "2 powi lead_exp x \<le> x" "x < 2 powi (lead_exp x + 1)"
proof -
  obtain p q where pq: "quotient_of x = (p, q)" by (cases "quotient_of x")
  have q: "0 < q" using quotient_of_denom_pos[OF pq] .
  have x: "x = of_int p / of_int q" using quotient_of_div[OF pq] .
  with assms q have p: "0 < p" by (simp add: zero_less_divide_iff)
  define k where "k = bitlen p - bitlen q"
  have powi_nat: "(2::rat) powi i = of_int (2 ^ nat i)" if "0 \<le> i" for i
    using that by (simp add: power_int_def)
  have b: "1 \<le> bitlen p" "1 \<le> bitlen q"
    using p q by (simp_all add: bitlen_alt_def)
  have P: "2 powi (bitlen p - 1) \<le> (of_int p :: rat)" "(of_int p :: rat) < 2 powi bitlen p"
    and Q: "2 powi (bitlen q - 1) \<le> (of_int q :: rat)" "(of_int q :: rat) < 2 powi bitlen q"
    using bitlen_bounds[OF p] bitlen_bounds[OF q] b
    by (simp_all only: powi_nat of_int_le_iff of_int_less_iff)
  have up: "x < 2 powi (k + 1)"
  proof -
    have "x < 2 powi bitlen p / 2 powi (bitlen q - 1)"
      unfolding x using P Q q p by (intro frac_less) (simp_all add: zero_less_power_int)
    also have "\<dots> = 2 powi (k + 1)"
      by (simp add: k_def flip: powi_diff_rat) (simp add: algebra_simps)
    finally show ?thesis .
  qed
  have low: "2 powi (k - 1) \<le> x"
  proof -
    have "2 powi (k - 1) = 2 powi (bitlen p - 1) / (2::rat) powi bitlen q"
      by (simp add: k_def algebra_simps flip: powi_diff_rat)
    also have "\<dots> \<le> x"
      unfolding x using P Q q p by (intro frac_le) (simp_all add: zero_less_power_int)
    finally show ?thesis .
  qed
  have e: "lead_exp x = (if 2 powi k \<le> x then k else k - 1)"
    by (simp add: lead_exp_def pq k_def Let_def)
  from up low show "2 powi lead_exp x \<le> x" "x < 2 powi (lead_exp x + 1)"
    by (simp_all add: e)
qed

lemma lead_exp_mono:
  assumes "0 < x" and "x \<le> y"
  shows "lead_exp x \<le> lead_exp y"
proof (rule ccontr)
  assume "\<not> lead_exp x \<le> lead_exp y"
  then have "lead_exp y + 1 \<le> lead_exp x" by simp
  then have "(2::rat) powi (lead_exp y + 1) \<le> 2 powi lead_exp x"
    by (rule power_int_increasing) simp
  with lead_exp_bounds[of x] lead_exp_bounds[of y] assms show False by linarith
qed

lemma lead_exp_less:
  assumes "0 < x" and "x < 2 powi k"
  shows "lead_exp x < k"
proof (rule ccontr)
  assume "\<not> lead_exp x < k"
  then have "(2::rat) powi k \<le> 2 powi lead_exp x" by (intro power_int_increasing) simp_all
  with lead_exp_bounds(1)[OF assms(1)] assms(2) show False by linarith
qed

section \<open>Rounding to a float\<close>

text \<open>A value with a significand of at most 53 bits is its own rounding.\<close>

lemma f64_round_representable:
  assumes "0 \<le> m" and "m < 2 ^ 53"
  shows "f64_round (of_int m * 2 powi j) = of_int m * 2 powi j"
proof (cases "m = 0")
  case True
  then show ?thesis by (simp add: f64_round_def)
next
  case False
  define x where "x = (of_int m * 2 powi j :: rat)"
  from False assms(1) have pos: "0 < x" by (simp add: x_def zero_less_power_int)
  have "x < 2 powi (53 + j)"
  proof -
    have "(of_int m :: rat) < 2 ^ 53" using assms(2) by (metis of_int_less_iff of_int_numeral of_int_power)
    then show ?thesis
      by (simp add: x_def power_int_add zero_less_power_int mult_strict_right_mono)
  qed
  define e where "e = lead_exp x - 52"
  from lead_exp_less[OF pos \<open>x < _\<close>] have e: "0 \<le> j - e" by (simp add: e_def)
  define n where "n = nat (j - e)"
  have cancel: "(2::rat) powi (- e) * 2 powi e = 1"
    by (simp add: power_int_minus)
  have "x * 2 powi (- e) = of_int m * 2 powi (j - e)"
    by (simp add: x_def power_int_add power_int_diff power_int_minus field_simps)
  also have "\<dots> = of_int (m * 2 ^ n)"
    using e by (simp add: n_def power_int_def)
  finally have s: "x * 2 powi (- e) = of_int (m * 2 ^ n)" .
  have "f64_round x = of_int (round_even (x * 2 powi (- e))) * 2 powi e"
    using pos by (simp add: f64_round_def Let_def e_def)
  also have "\<dots> = of_int (m * 2 ^ n) * 2 powi e"
    unfolding s round_even_of_int by (rule refl)
  also have "\<dots> = x"
    by (simp only: flip: s) (simp only: mult.assoc cancel mult_1_right)
  finally show ?thesis by (simp add: x_def)
qed

lemma f64_round_of_nat: "n < 2 ^ 53 \<Longrightarrow> f64_round (of_nat n) = of_nat n"
  using f64_round_representable[of "int n" 0] by simp

text \<open>Rounding stays within the binade of its argument.\<close>

lemma f64_round_binade:
  assumes "0 < x"
  shows "2 powi lead_exp x \<le> f64_round x" "f64_round x \<le> 2 powi (lead_exp x + 1)"
proof -
  define e where "e = lead_exp x - 52"
  define z where "z = x * 2 powi (- e)"
  have z: "2 ^ 52 \<le> z" "z < 2 ^ 53"
  proof -
    have "2 powi (lead_exp x) * 2 powi (- e) = (2::rat) ^ 52"
      by (simp add: e_def power_int_minus power_int_diff)
    moreover have "2 powi (lead_exp x + 1) * 2 powi (- e) = (2::rat) ^ 53"
      by (simp add: e_def power_int_minus power_int_diff power_int_add)
    moreover have "0 < (2::rat) powi (- e)" by (simp add: zero_less_power_int)
    ultimately show "2 ^ 52 \<le> z" "z < 2 ^ 53"
      using lead_exp_bounds[OF assms] unfolding z_def
      by (metis mult_le_cancel_right_pos, metis mult_less_cancel_right_pos)
  qed
  have "round_even (of_int (2 ^ 52)) \<le> round_even z" "round_even z \<le> round_even (of_int (2 ^ 53))"
    using z by (intro round_even_mono; simp)+
  then have "2 ^ 52 \<le> round_even z" "round_even z \<le> 2 ^ 53"
    by (simp_all only: round_even_of_int)
  then have "(of_int (2 ^ 52) :: rat) \<le> of_int (round_even z)"
      "(of_int (round_even z) :: rat) \<le> of_int (2 ^ 53)"
    by (simp_all only: of_int_le_iff)
  then have r: "2 ^ 52 \<le> (of_int (round_even z) :: rat)" "(of_int (round_even z) :: rat) \<le> 2 ^ 53"
    by simp_all
  have f: "f64_round x = of_int (round_even z) * 2 powi e"
    using assms by (simp add: f64_round_def e_def z_def Let_def)
  have pe: "0 \<le> (2::rat) powi e" by simp
  have k: "(2::rat) ^ 52 * 2 powi e = 2 powi lead_exp x"
      "(2::rat) ^ 53 * 2 powi e = 2 powi (lead_exp x + 1)"
    by (simp_all add: e_def power_int_diff power_int_add)
  show "2 powi lead_exp x \<le> f64_round x"
    using mult_right_mono[OF r(1) pe] unfolding k f .
  show "f64_round x \<le> 2 powi (lead_exp x + 1)"
    using mult_right_mono[OF r(2) pe] unfolding k f .
qed

lemma f64_round_nonneg: "0 \<le> f64_round x"
proof (cases "0 < x")
  case True
  have "0 \<le> (2::rat) powi lead_exp x" by simp
  with f64_round_binade(1)[OF True] show ?thesis by linarith
qed (simp add: f64_round_def)

lemma f64_round_mono:
  assumes "x \<le> y"
  shows "f64_round x \<le> f64_round y"
proof (cases "0 < x")
  case False
  then show ?thesis using f64_round_nonneg[of y] by (simp add: f64_round_def)
next
  case x: True
  with assms have y: "0 < y" by linarith
  show ?thesis
  proof (cases "lead_exp x = lead_exp y")
    case True
    have "x * 2 powi (- (lead_exp y - 52)) \<le> y * 2 powi (- (lead_exp y - 52))"
      using assms by (intro mult_right_mono) simp_all
    from round_even_mono[OF this] show ?thesis
      using x y True by (simp add: f64_round_def Let_def mult_right_mono)
  next
    case False
    with lead_exp_mono[OF x assms] have "lead_exp x + 1 \<le> lead_exp y" by simp
    then have "(2::rat) powi (lead_exp x + 1) \<le> 2 powi lead_exp y"
      by (rule power_int_increasing) simp
    with f64_round_binade(2)[OF x] f64_round_binade(1)[OF y] show ?thesis by linarith
  qed
qed

lemma f64_round_between:
  assumes "f64_round a = a" "a \<le> x" "x \<le> b" "f64_round b = b"
  shows "a \<le> f64_round x" "f64_round x \<le> b"
  using f64_round_mono[OF assms(2)] f64_round_mono[OF assms(3)] assms(1,4) by simp_all

end
