(* ===== verification/Config.thy ===== *)
theory Config
  imports Store_Prelude
begin

text \<open>
  \<^verbatim>\<open>rust/src/config.rs\<close>: the configuration of the five contracts and of the resilience
  layer, with the defaults \<open>serde\<close> fills in. Parsing the TOML file is the \<open>toml\<close> crate's work
  and a parameter; \<open>pool_size\<close>, \<open>timeout_ms\<close> and the relational \<open>max_retries\<close>
  are kept although no code reads them.
\<close>

record resilience_config =
  max_retries :: u32
  base_backoff_ms :: u64
  circuit_breaker_threshold :: u32
  circuit_breaker_reset_seconds :: u64
  operation_timeout_seconds :: u64

definition default_max_retries :: u32 where
  "default_max_retries = 3"

definition default_base_backoff_ms :: u64 where
  "default_base_backoff_ms = 100"

definition default_circuit_breaker_threshold :: u32 where
  "default_circuit_breaker_threshold = 5"

definition default_circuit_breaker_reset_seconds :: u64 where
  "default_circuit_breaker_reset_seconds = 30"

definition default_operation_timeout_seconds :: u64 where
  "default_operation_timeout_seconds = 5"

lemmas default_value_defs = default_max_retries_def default_base_backoff_ms_def
  default_circuit_breaker_threshold_def default_circuit_breaker_reset_seconds_def
  default_operation_timeout_seconds_def

definition default_resilience :: resilience_config where
  "default_resilience =
     \<lparr>max_retries = default_max_retries,
      base_backoff_ms = default_base_backoff_ms,
      circuit_breaker_threshold = default_circuit_breaker_threshold,
      circuit_breaker_reset_seconds = default_circuit_breaker_reset_seconds,
      operation_timeout_seconds = default_operation_timeout_seconds\<rparr>"

record kv_config =
  kv_backend :: string
  kv_url :: "string option"
  kv_pool_size :: "nat option"
  kv_timeout_ms :: "u64 option"

record relational_config =
  rel_backend :: string
  rel_url :: "string option"
  rel_pool_size :: "nat option"
  rel_max_retries :: "u32 option"

record sorted_set_config =
  ss_backend :: string
  ss_url :: "string option"

record pubsub_config =
  ps_backend :: string
  ps_url :: "string option"

record blob_config =
  blob_backend :: string
  blob_endpoint :: "string option"
  blob_bucket :: "string option"
  blob_region :: "string option"
  blob_access_key :: "string option"
  blob_secret_key :: "string option"
  blob_force_path_style :: "bool option"
  blob_path :: "string option"

record store_config =
  cfg_kv :: kv_config
  cfg_relational :: relational_config
  cfg_sorted_set :: sorted_set_config
  cfg_pubsub :: pubsub_config
  cfg_blob :: blob_config
  cfg_resilience :: resilience_config

text \<open>\<open>#[derive(Default)]\<close>: empty backend names, every option absent.\<close>

definition default_config :: store_config where
  "default_config =
     \<lparr>cfg_kv = \<lparr>kv_backend = [], kv_url = None, kv_pool_size = None, kv_timeout_ms = None\<rparr>,
      cfg_relational =
        \<lparr>rel_backend = [], rel_url = None, rel_pool_size = None, rel_max_retries = None\<rparr>,
      cfg_sorted_set = \<lparr>ss_backend = [], ss_url = None\<rparr>,
      cfg_pubsub = \<lparr>ps_backend = [], ps_url = None\<rparr>,
      cfg_blob =
        \<lparr>blob_backend = [], blob_endpoint = None, blob_bucket = None, blob_region = None,
         blob_access_key = None, blob_secret_key = None, blob_force_path_style = None,
         blob_path = None\<rparr>,
      cfg_resilience = default_resilience\<rparr>"

text \<open>\<open>StoreConfig::from_file\<close>; reading a file and parsing its contents are parameters.\<close>

definition from_file ::
  "(string \<Rightarrow> string result) \<Rightarrow> (string \<Rightarrow> store_config result) \<Rightarrow> string \<Rightarrow> store_config result" where
  "from_file read_to_string from_str path =
     (case read_to_string path of
        Inl err \<Rightarrow> Inl err
      | Inr content \<Rightarrow>
          (case from_str content of Inl err \<Rightarrow> Inl err | Inr config \<Rightarrow> Inr config))"

end
