(* ===== verification/Health.thy ===== *)
theory Health
  imports Store_Prelude
begin

text \<open>
  \<^verbatim>\<open>rust/src/health.rs\<close>: the status a backend reports and the report that consolidates
  the statuses of all contracts. The states are ordered by severity, so that the overall
  state of a report is the maximum of its statuses.
\<close>

datatype health_state = Healthy | Degraded | Unhealthy

record health_status =
  hs_contract :: string
  hs_backend :: string
  hs_state :: health_state
  hs_message :: "string option"
  hs_latency_ms :: nat

definition healthy :: "string \<Rightarrow> string \<Rightarrow> nat \<Rightarrow> health_status" where
  "healthy contract backend latency_ms =
     \<lparr>hs_contract = contract, hs_backend = backend, hs_state = Healthy,
      hs_message = None, hs_latency_ms = latency_ms\<rparr>"

definition unhealthy :: "string \<Rightarrow> string \<Rightarrow> string \<Rightarrow> nat \<Rightarrow> health_status" where
  "unhealthy contract backend message latency_ms =
     \<lparr>hs_contract = contract, hs_backend = backend, hs_state = Unhealthy,
      hs_message = Some message, hs_latency_ms = latency_ms\<rparr>"

definition degraded :: "string \<Rightarrow> string \<Rightarrow> string \<Rightarrow> nat \<Rightarrow> health_status" where
  "degraded contract backend message latency_ms =
     \<lparr>hs_contract = contract, hs_backend = backend, hs_state = Degraded,
      hs_message = Some message, hs_latency_ms = latency_ms\<rparr>"

lemmas status_defs = healthy_def unhealthy_def degraded_def

record consolidated_health =
  ch_state :: health_state
  ch_contracts :: "(string, health_status) hashmap"

text \<open>One turn of the loop of \<open>from_statuses\<close>: the overall state so far and the map.\<close>

fun consolidate_step ::
  "health_status \<Rightarrow> health_state \<times> (string, health_status) hashmap
     \<Rightarrow> health_state \<times> (string, health_status) hashmap" where
  "consolidate_step status (overall_state, m) =
     ((case hs_state status of
         Unhealthy \<Rightarrow> Unhealthy
       | Degraded \<Rightarrow> (if overall_state \<noteq> Unhealthy then Degraded else overall_state)
       | Healthy \<Rightarrow> overall_state),
      hm_insert (hs_contract status) status m)"

definition from_statuses :: "health_status list \<Rightarrow> consolidated_health" where
  "from_statuses statuses =
     (case fold consolidate_step statuses (Healthy, []) of
        (overall_state, m) \<Rightarrow> \<lparr>ch_state = overall_state, ch_contracts = m\<rparr>)"

section \<open>Severity\<close>

instantiation health_state :: linorder
begin

fun severity :: "health_state \<Rightarrow> nat" where
  "severity Healthy = 0"
| "severity Degraded = 1"
| "severity Unhealthy = 2"

definition less_eq_health_state :: "health_state \<Rightarrow> health_state \<Rightarrow> bool" where
  "a \<le> b \<longleftrightarrow> severity a \<le> severity b"

definition less_health_state :: "health_state \<Rightarrow> health_state \<Rightarrow> bool" where
  "a < b \<longleftrightarrow> severity a < severity b"

lemma severity_inj: "severity a = severity b \<longleftrightarrow> a = b"
  by (cases a; cases b) simp_all

instance
  by intro_classes
    (auto simp: less_eq_health_state_def less_health_state_def severity_inj[symmetric])

end

lemmas severity_order = less_eq_health_state_def less_health_state_def

lemma consolidate_step_max:
  "fst (consolidate_step status acc) = max (fst acc) (hs_state status)"
  by (cases acc; cases "fst acc"; cases "hs_state status") (auto simp: max_def severity_order)

lemma consolidate_overall:
  "fst (fold consolidate_step statuses acc) = fold max (map hs_state statuses) (fst acc)"
  by (induction statuses arbitrary: acc) (auto simp: consolidate_step_max max.commute)

lemma fold_max_Max: "fold max xs a = Max (insert a (set xs))" for a :: health_state
  using Max.set_eq_fold[of a xs] by simp

lemma from_statuses_state:
  "ch_state (from_statuses statuses) = Max (insert Healthy (hs_state ` set statuses))"
  using consolidate_overall[of statuses "(Healthy, [])"]
  by (auto simp: from_statuses_def fold_max_Max split: prod.splits)

lemma consolidate_map:
  "hm_get (snd (fold consolidate_step statuses acc)) =
     (hm_get (snd acc))(map hs_contract statuses [\<mapsto>] statuses)"
  by (induction statuses arbitrary: acc) (auto split: prod.splits)

lemma from_statuses_contracts:
  "hm_get (ch_contracts (from_statuses statuses)) = [map hs_contract statuses [\<mapsto>] statuses]"
  using consolidate_map[of statuses "(Healthy, [])"]
  by (auto simp: from_statuses_def split: prod.splits)

lemma consolidate_ok:
  "hm_ok (snd acc) \<Longrightarrow> hm_ok (snd (fold consolidate_step statuses acc))"
proof (induction statuses arbitrary: acc)
  case Nil
  then show ?case by simp
next
  case (Cons status statuses)
  have "hm_ok (snd (consolidate_step status acc))"
    using Cons.prems by (cases acc) (simp add: hm_ok_insert)
  with Cons.IH show ?case by simp
qed

lemma from_statuses_ok: "hm_ok (ch_contracts (from_statuses statuses))"
  using consolidate_ok[of "(Healthy, [])" statuses]
  by (auto simp: from_statuses_def split: prod.splits)

lemma severity_max_cases:
  "Max (insert Healthy S) = Unhealthy \<longleftrightarrow> Unhealthy \<in> S" (is ?U)
  "Max (insert Healthy S) = Degraded \<longleftrightarrow> Degraded \<in> S \<and> Unhealthy \<notin> S" (is ?D)
  "Max (insert Healthy S) = Healthy \<longleftrightarrow> S \<subseteq> {Healthy}" (is ?H)
  if "finite S" for S
proof -
  let ?M = "Max (insert Healthy S)"
  have up: "x \<le> ?M" if "x \<in> S" for x
    using that \<open>finite S\<close> by (intro Max_ge) auto
  have mem: "?M \<in> insert Healthy S"
    using \<open>finite S\<close> by (intro Max_in) auto
  have le: "x \<le> y \<longleftrightarrow> severity x \<le> severity y" for x y
    by (simp add: severity_order)
  show ?U using up[of Unhealthy] mem by (cases ?M) (auto simp: le)
  show ?D using up[of Unhealthy] up[of Degraded] mem by (cases ?M) (auto simp: le)
  show ?H
  proof
    assume h: "?M = Healthy"
    show "S \<subseteq> {Healthy}"
    proof
      fix x
      assume "x \<in> S"
      then show "x \<in> {Healthy}" using up[of x] h by (cases x) (auto simp: le)
    qed
  next
    assume "S \<subseteq> {Healthy}"
    with mem show "?M = Healthy" by auto
  qed
qed

end
