(* ===== verification/Metrics.thy ===== *)
theory Metrics
  imports Health
begin

text \<open>
  The metric families of \<^verbatim>\<open>rust/src/metrics.rs\<close> and the calls made on them.

  The Prometheus client is not part of the repository. What the crate does with it is a
  sequence of calls, \<open>with_label_values(labels)\<close> followed by \<open>observe\<close>, \<open>inc\<close> or \<open>set\<close>; that
  sequence is the model of the metrics. Gauges are only ever set to 0.0, 1.0 and 2.0, which are
  naturals here. Registration is a parameter: a function that registers a description or
  reports an error.
\<close>

datatype family =
    KvOperationDuration
  | RelationalQueryDuration
  | SortedSetOperationDuration
  | BlobOperationDuration
  | PubsubOperationDuration
  | ErrorsTotal
  | RetriesTotal
  | CircuitBreakerState
  | PoolActiveConnections
  | PoolIdleConnections
  | HealthCheckStatus
  | HealthCheckDuration

datatype metric_kind = Histogram | Counter | Gauge

record metric_desc =
  md_family :: family
  md_kind :: metric_kind
  md_name :: string
  md_help :: string
  md_labels :: "string list"

definition duration_desc :: "family \<Rightarrow> string \<Rightarrow> string \<Rightarrow> string list \<Rightarrow> metric_desc" where
  "duration_desc fam name hlp labels =
     \<lparr>md_family = fam, md_kind = Histogram, md_name = name, md_help = hlp, md_labels = labels\<rparr>"

definition counter_desc :: "family \<Rightarrow> string \<Rightarrow> string \<Rightarrow> string list \<Rightarrow> metric_desc" where
  "counter_desc fam name hlp labels =
     \<lparr>md_family = fam, md_kind = Counter, md_name = name, md_help = hlp, md_labels = labels\<rparr>"

definition gauge_desc :: "family \<Rightarrow> string \<Rightarrow> string \<Rightarrow> string list \<Rightarrow> metric_desc" where
  "gauge_desc fam name hlp labels =
     \<lparr>md_family = fam, md_kind = Gauge, md_name = name, md_help = hlp, md_labels = labels\<rparr>"

lemmas desc_defs = duration_desc_def counter_desc_def gauge_desc_def

text \<open>The registrations of \<open>StoreMetrics::new\<close>, in its order.\<close>

definition store_metric_descs :: "metric_desc list" where
  "store_metric_descs =
    [duration_desc KvOperationDuration ''goy_store_kv_operation_duration_seconds''
       ''Duration of KV store operations in seconds'' [''operation'', ''backend''],
     duration_desc RelationalQueryDuration ''goy_store_relational_query_duration_seconds''
       ''Duration of relational query operations in seconds'' [''operation'', ''backend''],
     duration_desc SortedSetOperationDuration ''goy_store_sorted_set_operation_duration_seconds''
       ''Duration of sorted set operations in seconds'' [''operation'', ''backend''],
     duration_desc BlobOperationDuration ''goy_store_blob_operation_duration_seconds''
       ''Duration of blob operations in seconds'' [''operation'', ''backend''],
     duration_desc PubsubOperationDuration ''goy_store_pubsub_operation_duration_seconds''
       ''Duration of pubsub operations in seconds'' [''operation'', ''backend''],
     counter_desc ErrorsTotal ''goy_store_errors_total''
       ''Total number of store errors'' [''contract'', ''operation'', ''backend'', ''error_type''],
     counter_desc RetriesTotal ''goy_store_retries_total''
       ''Total number of store operation retries'' [''contract'', ''operation'', ''backend''],
     gauge_desc CircuitBreakerState ''goy_store_circuit_breaker_state''
       ''Circuit breaker state (0=closed, 1=open, 2=half-open)'' [''contract'', ''backend''],
     gauge_desc PoolActiveConnections ''goy_store_pool_active_connections''
       ''Number of active pool connections'' [''backend''],
     gauge_desc PoolIdleConnections ''goy_store_pool_idle_connections''
       ''Number of idle pool connections'' [''backend''],
     gauge_desc HealthCheckStatus ''goy_store_health_check_status''
       ''Health check status (1=healthy, 0=unhealthy, 2=degraded)'' [''contract'', ''backend''],
     duration_desc HealthCheckDuration ''goy_store_health_check_duration_seconds''
       ''Duration of health check operations in seconds'' [''contract'', ''backend'']]"

text \<open>\<open>StoreMetrics::new\<close>: each registration in turn, \<open>?\<close> returns the first error.\<close>

fun register_all ::
  "(metric_desc \<Rightarrow> 'reg \<Rightarrow> 'reg result) \<Rightarrow> metric_desc list \<Rightarrow> 'reg \<Rightarrow> 'reg result" where
  "register_all register [] reg = Inr reg"
| "register_all register (d # ds) reg =
     (case register d reg of Inl e \<Rightarrow> Inl e | Inr reg' \<Rightarrow> register_all register ds reg')"

definition new_store_metrics ::
  "(metric_desc \<Rightarrow> 'reg \<Rightarrow> 'reg result) \<Rightarrow> 'reg \<Rightarrow> 'reg result" where
  "new_store_metrics register registry = register_all register store_metric_descs registry"

text \<open>\<open>StoreMetrics::default\<close> on a fresh registry: \<open>None\<close> is the panic of \<open>expect\<close>.\<close>

definition default_store_metrics ::
  "(metric_desc \<Rightarrow> 'reg \<Rightarrow> 'reg result) \<Rightarrow> 'reg \<Rightarrow> 'reg option" where
  "default_store_metrics register fresh =
     (case new_store_metrics register fresh of Inl e \<Rightarrow> None | Inr reg \<Rightarrow> Some reg)"

lemma store_metric_names_distinct: "distinct (map md_name store_metric_descs)"
  by (simp add: store_metric_descs_def desc_defs)

text \<open>
  Documented behaviour of a registry: a description is refused when its name is taken and
  added otherwise.
\<close>

definition registers_names ::
  "(metric_desc \<Rightarrow> 'reg \<Rightarrow> 'reg result) \<Rightarrow> ('reg \<Rightarrow> string set) \<Rightarrow> bool" where
  "registers_names register names \<longleftrightarrow>
     (\<forall>d reg. if md_name d \<in> names reg then \<exists>e. register d reg = Inl e
       else \<exists>reg'. register d reg = Inr reg' \<and> names reg' = insert (md_name d) (names reg))"

lemma register_all_fresh:
  assumes "registers_names register names" and "distinct (map md_name ds)"
    and "md_name ` set ds \<inter> names reg = {}"
  shows "\<exists>reg'. register_all register ds reg = Inr reg' \<and> names reg' = names reg \<union> md_name ` set ds"
  using assms(2,3)
proof (induction ds arbitrary: reg)
  case (Cons d ds)
  then obtain reg1 where "register d reg = Inr reg1" "names reg1 = insert (md_name d) (names reg)"
    using assms(1) unfolding registers_names_def by (metis disjoint_iff image_eqI list.set_intros(1))
  with Cons.IH[of reg1] Cons.prems show ?case by auto
qed simp

lemma register_all_taken:
  assumes "registers_names register names" and "md_name d \<in> names reg"
  shows "\<exists>e. register_all register (d # ds) reg = Inl e"
proof -
  obtain e where "register d reg = Inl e"
    using assms unfolding registers_names_def by meson
  then show ?thesis by simp
qed

text \<open>
  On a fresh registry \<open>StoreMetrics::default\<close> does not panic and registers all twelve families; a
  second instance on the same registry is refused with an error.
\<close>

lemma store_metrics_register:
  assumes "registers_names register names" and "names fresh = {}"
  shows "\<exists>reg. default_store_metrics register fresh = Some reg
    \<and> names reg = md_name ` set store_metric_descs \<and> card (names reg) = 12
    \<and> (\<exists>err. new_store_metrics register reg = Inl err)"
proof -
  obtain reg where reg: "register_all register store_metric_descs fresh = Inr reg"
    "names reg = md_name ` set store_metric_descs"
    using register_all_fresh[OF assms(1) store_metric_names_distinct, of fresh] assms(2) by auto
  have "card (names reg) = length (map md_name store_metric_descs)"
    using distinct_card[OF store_metric_names_distinct] by (simp add: reg)
  also have "\<dots> = 12" by (simp add: store_metric_descs_def)
  finally have card: "card (names reg) = 12" .
  obtain d ds where descs: "store_metric_descs = d # ds"
    by (simp add: store_metric_descs_def)
  have "md_name d \<in> names reg" by (simp add: reg(2) descs)
  from register_all_taken[OF assms(1) this, of ds] have "\<exists>err. new_store_metrics register reg = Inl err"
    by (simp only: new_store_metrics_def descs)
  with reg card show ?thesis
    by (intro exI[of _ reg]) (simp add: default_store_metrics_def new_store_metrics_def)
qed

section \<open>Calls on the metrics\<close>

datatype metric_event =
    Observe family "string list" duration
  | Inc family "string list"
  | SetGauge family "string list" nat

fun event_family :: "metric_event \<Rightarrow> family" where
  "event_family (Observe f _ _) = f"
| "event_family (Inc f _) = f"
| "event_family (SetGauge f _ _) = f"

fun event_labels :: "metric_event \<Rightarrow> string list" where
  "event_labels (Observe _ ls _) = ls"
| "event_labels (Inc _ ls) = ls"
| "event_labels (SetGauge _ ls _) = ls"

fun event_kind :: "metric_event \<Rightarrow> metric_kind" where
  "event_kind (Observe _ _ _) = Histogram"
| "event_kind (Inc _ _) = Counter"
| "event_kind (SetGauge _ _ _) = Gauge"

text \<open>
  A call the client accepts: the family is registered with that kind, and
  \<open>with_label_values\<close> gets one value per label (it panics otherwise).
\<close>

definition event_ok :: "metric_event \<Rightarrow> bool" where
  "event_ok ev = (\<exists>d \<in> set store_metric_descs.
     md_family d = event_family ev \<and> md_kind d = event_kind ev
       \<and> length (md_labels d) = length (event_labels ev))"

text \<open>All that \<open>event_ok\<close> reads of a description, as a table.\<close>

definition metric_signatures :: "(family \<times> metric_kind \<times> nat) list" where
  "metric_signatures =
     map (\<lambda>d. (md_family d, md_kind d, length (md_labels d))) store_metric_descs"

lemma event_ok_signature:
  "event_ok ev \<longleftrightarrow>
     (event_family ev, event_kind ev, length (event_labels ev)) \<in> set metric_signatures"
  unfolding event_ok_def metric_signatures_def set_map image_iff prod.inject
  by (simp only: eq_commute)

lemma metric_signatures_eq:
  "metric_signatures =
     [(KvOperationDuration, Histogram, 2), (RelationalQueryDuration, Histogram, 2),
      (SortedSetOperationDuration, Histogram, 2), (BlobOperationDuration, Histogram, 2),
      (PubsubOperationDuration, Histogram, 2), (ErrorsTotal, Counter, 4), (RetriesTotal, Counter, 3),
      (CircuitBreakerState, Gauge, 2), (PoolActiveConnections, Gauge, 1),
      (PoolIdleConnections, Gauge, 1), (HealthCheckStatus, Gauge, 2), (HealthCheckDuration, Histogram, 2)]"
  by (simp add: metric_signatures_def store_metric_descs_def desc_defs)

lemma event_ok_simps [simp]:
  "event_ok (Observe f ls d) \<longleftrightarrow>
     length ls = 2 \<and> f \<in> {KvOperationDuration, RelationalQueryDuration, SortedSetOperationDuration,
       BlobOperationDuration, PubsubOperationDuration, HealthCheckDuration}"
  "event_ok (Inc f ls) \<longleftrightarrow> f = ErrorsTotal \<and> length ls = 4 \<or> f = RetriesTotal \<and> length ls = 3"
  "event_ok (SetGauge f ls v) \<longleftrightarrow>
     f \<in> {CircuitBreakerState, HealthCheckStatus} \<and> length ls = 2
       \<or> f \<in> {PoolActiveConnections, PoolIdleConnections} \<and> length ls = 1"
  by (auto simp: event_ok_signature metric_signatures_eq)

text \<open>The value of a counter: the number of times it was incremented.\<close>

definition counter_value :: "family \<Rightarrow> string list \<Rightarrow> metric_event list \<Rightarrow> nat" where
  "counter_value f ls evs = length (filter (\<lambda>ev. ev = Inc f ls) evs)"

lemma counter_value_append [simp]:
  "counter_value f ls (xs @ ys) = counter_value f ls xs + counter_value f ls ys"
  by (simp add: counter_value_def)

text \<open>The gauge values of a health state, as the instrumented wrappers set them.\<close>

fun health_gauge :: "health_state \<Rightarrow> nat" where
  "health_gauge Healthy = 1"
| "health_gauge Degraded = 2"
| "health_gauge Unhealthy = 0"

end
