(* ===== verification/Runtime.thy ===== *)
theory Runtime
  imports Metrics
begin

text \<open>
  The asynchronous runtime as the wrappers see it.

  An environment is the clock, the metric calls made so far and the state of one store. A
  future runs from an environment with an optional deadline (time it may take before it is
  dropped) and either finishes with a result, or is unfinished when the deadline strikes (with
  no deadline: never becomes ready), or panics. The environment it leaves is part of each case,
  because a dropped future may have done some of its work.
\<close>

record 's env =
  clock :: duration
  events :: "metric_event list"
  store :: 's

datatype ('s, 'a) poll =
    Finished 'a "'s env"
  | Unfinished "'s env"
  | Panicked "'s env"

type_synonym ('s, 'a) future = "duration option \<Rightarrow> 's env \<Rightarrow> ('s, 'a result) poll"

definition emit :: "metric_event \<Rightarrow> 's env \<Rightarrow> 's env" where
  "emit ev e = e\<lparr>events := events e @ [ev]\<rparr>"

definition sleep :: "duration \<Rightarrow> 's env \<Rightarrow> 's env" where
  "sleep d e = e\<lparr>clock := clock e + d\<rparr>"

lemma env_simps [simp]:
  "clock (emit ev e) = clock e" "events (emit ev e) = events e @ [ev]" "store (emit ev e) = store e"
  "clock (sleep d e) = clock e + d" "events (sleep d e) = events e" "store (sleep d e) = store e"
  by (simp_all add: emit_def sleep_def)

text \<open>
  A call that takes \<open>lat\<close> and then applies \<open>f\<close> to the store at once, under its lock;
  \<open>None\<close> is a panic. The in-memory stores are of this kind.
\<close>

definition atomic :: "duration \<Rightarrow> ('s \<Rightarrow> ('a result \<times> 's) option) \<Rightarrow> ('s, 'a) future" where
  "atomic lat f dl e =
     (if (case dl of None \<Rightarrow> False | Some d \<Rightarrow> d < lat) then Unfinished (sleep (the dl) e)
      else (case f (store e) of
              None \<Rightarrow> Panicked (sleep lat e)
            | Some (r, s') \<Rightarrow> Finished r ((sleep lat e)\<lparr>store := s'\<rparr>)))"

text \<open>\<open>tokio::time::timeout\<close>, with the match that turns the elapsed deadline into an error.\<close>

definition with_timeout ::
  "duration \<Rightarrow> ('s, 'a) future \<Rightarrow> 's env \<Rightarrow> ('s, 'a result) poll" where
  "with_timeout d fut e =
     (case fut (Some d) e of
        Finished inner_res e' \<Rightarrow> Finished inner_res e'
      | Unfinished e' \<Rightarrow> Finished (Inl OperationTimedOut) e'
      | Panicked e' \<Rightarrow> Panicked e')"

section \<open>The instrumented call\<close>

text \<open>
  The body every instrumented method repeats (\<^verbatim>\<open>rust/src/metrics.rs\<close>): time the inner call,
  observe the duration, count an error. A future dropped at its deadline never gets past its
  \<open>await\<close>, so it records nothing.
\<close>

definition instrumented ::
  "family \<Rightarrow> string \<Rightarrow> string \<Rightarrow> string \<Rightarrow> ('s, 'a) future \<Rightarrow> ('s, 'a) future" where
  "instrumented fam contract op backend inner dl e =
     (let start = clock e in
      case inner dl e of
        Finished res e1 \<Rightarrow>
          let e2 = emit (Observe fam [op, backend] (clock e1 - start)) e1;
              e3 = (if is_err res
                    then emit (Inc ErrorsTotal [contract, op, backend, ''error'']) e2 else e2)
          in Finished res e3
      | Unfinished e1 \<Rightarrow> Unfinished e1
      | Panicked e1 \<Rightarrow> Panicked e1)"

text \<open>The instrumented \<open>is_healthy\<close>: \<open>?\<close> returns an error before any metric is touched.\<close>

definition instrumented_health ::
  "string \<Rightarrow> string \<Rightarrow> ('s, health_status) future \<Rightarrow> ('s, health_status) future" where
  "instrumented_health contract backend inner dl e =
     (let start = clock e in
      case inner dl e of
        Finished (Inl err) e1 \<Rightarrow> Finished (Inl err) e1
      | Finished (Inr status) e1 \<Rightarrow>
          let e2 = emit (Observe HealthCheckDuration [contract, backend] (clock e1 - start)) e1;
              e3 = emit (SetGauge HealthCheckStatus [contract, backend]
                           (health_gauge (hs_state status))) e2
          in Finished (Inr status) e3
      | Unfinished e1 \<Rightarrow> Unfinished e1
      | Panicked e1 \<Rightarrow> Panicked e1)"

section \<open>Time\<close>

text \<open>A future that respects its deadline and never runs the clock backwards.\<close>

definition well_timed :: "('s, 'a) future \<Rightarrow> bool" where
  "well_timed fut \<longleftrightarrow>
     (\<forall>d e. case fut (Some d) e of
        Finished r e' \<Rightarrow> clock e \<le> clock e' \<and> clock e' \<le> clock e + d
      | Unfinished e' \<Rightarrow> clock e' = clock e + d
      | Panicked e' \<Rightarrow> clock e \<le> clock e' \<and> clock e' \<le> clock e + d)"

lemma well_timed_atomic [intro]: "well_timed (atomic lat f)"
  by (auto simp: well_timed_def atomic_def split: option.splits)

lemma well_timed_instrumented [intro]:
  assumes "well_timed fut"
  shows "well_timed (instrumented fam contract op backend fut)"
  unfolding well_timed_def
proof (intro allI)
  fix d e
  from assms have "case fut (Some d) e of
        Finished r e' \<Rightarrow> clock e \<le> clock e' \<and> clock e' \<le> clock e + d
      | Unfinished e' \<Rightarrow> clock e' = clock e + d
      | Panicked e' \<Rightarrow> clock e \<le> clock e' \<and> clock e' \<le> clock e + d"
    by (simp add: well_timed_def)
  then show "case instrumented fam contract op backend fut (Some d) e of
        Finished r e' \<Rightarrow> clock e \<le> clock e' \<and> clock e' \<le> clock e + d
      | Unfinished e' \<Rightarrow> clock e' = clock e + d
      | Panicked e' \<Rightarrow> clock e \<le> clock e' \<and> clock e' \<le> clock e + d"
    by (cases "fut (Some d) e") (simp_all add: instrumented_def Let_def)
qed

lemma with_timeout_bound:
  assumes "well_timed fut"
  shows "case with_timeout d fut e of
      Finished r e' \<Rightarrow> clock e \<le> clock e' \<and> clock e' \<le> clock e + d
    | Unfinished e' \<Rightarrow> False
    | Panicked e' \<Rightarrow> clock e \<le> clock e' \<and> clock e' \<le> clock e + d"
proof -
  from assms have "case fut (Some d) e of
        Finished r e' \<Rightarrow> clock e \<le> clock e' \<and> clock e' \<le> clock e + d
      | Unfinished e' \<Rightarrow> clock e' = clock e + d
      | Panicked e' \<Rightarrow> clock e \<le> clock e' \<and> clock e' \<le> clock e + d"
    by (simp add: well_timed_def)
  then show ?thesis
    by (cases "fut (Some d) e") (simp_all add: with_timeout_def)
qed

lemma with_timeout_not_Unfinished [simp]: "with_timeout d fut e \<noteq> Unfinished e'"
  by (cases "fut (Some d) e") (simp_all add: with_timeout_def)

section \<open>Implementing an abstract operation\<close>

text \<open>
  \<open>serves ok \<alpha> L fut g\<close>: from every store that satisfies the invariant \<open>ok\<close>, and with no
  deadline or one of at least \<open>L\<close>, the future finishes within \<open>L\<close> without error, with the result
  and the next state that the abstract operation \<open>g\<close> has on the abstraction of the store, and
  keeps the invariant. This is the refinement statement the contracts are built from.
\<close>

definition in_time :: "duration \<Rightarrow> duration option \<Rightarrow> bool" where
  "in_time L dl = (case dl of None \<Rightarrow> True | Some d \<Rightarrow> L \<le> d)"

definition serves ::
  "('s \<Rightarrow> bool) \<Rightarrow> ('s \<Rightarrow> 'x) \<Rightarrow> duration \<Rightarrow> ('s, 'a) future \<Rightarrow> ('x \<Rightarrow> 'a \<times> 'x) \<Rightarrow> bool" where
  "serves ok \<alpha> L fut g \<longleftrightarrow>
     (\<forall>dl e. ok (store e) \<longrightarrow> in_time L dl \<longrightarrow>
        (\<exists>e'. fut dl e = Finished (Inr (fst (g (\<alpha> (store e))))) e'
            \<and> \<alpha> (store e') = snd (g (\<alpha> (store e))) \<and> ok (store e')
            \<and> clock e \<le> clock e' \<and> clock e' \<le> clock e + L))"

lemma servesI:
  assumes "\<And>dl e. ok (store e) \<Longrightarrow> in_time L dl \<Longrightarrow>
      \<exists>e'. fut dl e = Finished (Inr (fst (g (\<alpha> (store e))))) e'
         \<and> \<alpha> (store e') = snd (g (\<alpha> (store e))) \<and> ok (store e')
         \<and> clock e \<le> clock e' \<and> clock e' \<le> clock e + L"
  shows "serves ok \<alpha> L fut g"
  using assms by (auto simp: serves_def)

lemma servesE:
  assumes "serves ok \<alpha> L fut g" and "ok (store e)" and "in_time L dl"
  obtains e' where "fut dl e = Finished (Inr (fst (g (\<alpha> (store e))))) e'"
    and "\<alpha> (store e') = snd (g (\<alpha> (store e)))" and "ok (store e')"
    and "clock e \<le> clock e'" and "clock e' \<le> clock e + L"
  using assms unfolding serves_def by blast

text \<open>An atomic call serves \<open>g\<close> when its function on the store does.\<close>

lemma serves_atomic:
  assumes "\<And>s. ok s \<Longrightarrow> \<exists>s'. f s = Some (Inr (fst (g (\<alpha> s))), s') \<and> \<alpha> s' = snd (g (\<alpha> s)) \<and> ok s'"
  shows "serves ok \<alpha> lat (atomic lat f) g"
proof (rule servesI)
  fix dl and e :: "'a env"
  assume "ok (store e)" and dl: "in_time lat dl"
  then obtain s' where "f (store e) = Some (Inr (fst (g (\<alpha> (store e)))), s')"
    and "\<alpha> s' = snd (g (\<alpha> (store e)))" and "ok s'"
    using assms by blast
  with dl show "\<exists>e'. atomic lat f dl e = Finished (Inr (fst (g (\<alpha> (store e))))) e'
      \<and> \<alpha> (store e') = snd (g (\<alpha> (store e))) \<and> ok (store e')
      \<and> clock e \<le> clock e' \<and> clock e' \<le> clock e + lat"
    by (auto simp: atomic_def in_time_def split: option.splits)
qed

text \<open>Instrumentation changes neither results nor state.\<close>

lemma serves_instrumented [serves_intros]:
  assumes "serves ok \<alpha> L fut g"
  shows "serves ok \<alpha> L (instrumented fam contract op backend fut) g"
proof (rule servesI)
  fix dl and e :: "'a env"
  assume "ok (store e)" and "in_time L dl"
  with assms obtain e' where "fut dl e = Finished (Inr (fst (g (\<alpha> (store e))))) e'"
    and "\<alpha> (store e') = snd (g (\<alpha> (store e)))" and "ok (store e')"
    and "clock e \<le> clock e'" and "clock e' \<le> clock e + L"
    by (rule servesE)
  then show "\<exists>e'. instrumented fam contract op backend fut dl e
        = Finished (Inr (fst (g (\<alpha> (store e))))) e'
      \<and> \<alpha> (store e') = snd (g (\<alpha> (store e))) \<and> ok (store e')
      \<and> clock e \<le> clock e' \<and> clock e' \<le> clock e + L"
    by (simp add: instrumented_def Let_def)
qed

lemma serves_instrumented_health [serves_intros]:
  assumes "serves ok \<alpha> L fut g"
  shows "serves ok \<alpha> L (instrumented_health contract backend fut) g"
proof (rule servesI)
  fix dl and e :: "'a env"
  assume "ok (store e)" and "in_time L dl"
  with assms obtain e' where "fut dl e = Finished (Inr (fst (g (\<alpha> (store e))))) e'"
    and "\<alpha> (store e') = snd (g (\<alpha> (store e)))" and "ok (store e')"
    and "clock e \<le> clock e'" and "clock e' \<le> clock e + L"
    by (rule servesE)
  then show "\<exists>e'. instrumented_health contract backend fut dl e
        = Finished (Inr (fst (g (\<alpha> (store e))))) e'
      \<and> \<alpha> (store e') = snd (g (\<alpha> (store e))) \<and> ok (store e')
      \<and> clock e \<le> clock e' \<and> clock e' \<le> clock e + L"
    by (simp add: instrumented_health_def Let_def)
qed

section \<open>Recorded metrics\<close>

text \<open>What a finished instrumented call adds to the metrics.\<close>

lemma instrumented_events:
  assumes "fut dl e = Finished res e1"
  shows "\<exists>e'. instrumented fam contract op backend fut dl e = Finished res e'
    \<and> store e' = store e1 \<and> clock e' = clock e1
    \<and> events e' = events e1 @ [Observe fam [op, backend] (clock e1 - clock e)]
        @ (if is_err res then [Inc ErrorsTotal [contract, op, backend, ''error'']] else [])"
  using assms by (simp add: instrumented_def Let_def)

end
