(* ===== verification/Executor.thy ===== *)
theory Executor
  imports Circuit_Breaker F64_Round Config Runtime
begin

text \<open>
  \<open>ResilientExecutor\<close> of \<^verbatim>\<open>rust/src/resilience.rs\<close>: the retry loop around one operation,
  with its circuit breaker, its timeout and its metrics.

  A guarded store is the breaker and the environment of the store behind it. A call returns a
  result, or is aborted by a panic; \<open>None\<close> is a call that never returns, which the retry loop can
  do only without overflow checks and with \<open>max_retries\<close> at the top of its type.
\<close>

type_synonym 's guarded = "circuit_breaker \<times> 's env"

datatype ('s, 'a) outcome = Returned "'a result" "'s guarded" | Aborted "'s guarded"

type_synonym ('s, 'a) guarded_call = "'s guarded \<Rightarrow> ('s, 'a) outcome option"

section \<open>The delay between attempts\<close>

text \<open>\<open>2u64.pow(n)\<close>: with overflow checks it panics from 64 on, without it is zero there.\<close>

definition pow2_u64 :: "bool \<Rightarrow> u32 \<Rightarrow> u64 option" where
  "pow2_u64 oc n = (if oc \<and> 64 \<le> unat n then None else Some (2 ^ unat n))"

definition jitter :: "u32 \<Rightarrow> rat" where
  "jitter attempt =
     f64_add (3 / 4) (f64_div (f64_rem (f64_mul (f64_of_nat (unat attempt)) 137) 50) 100)"

definition backoff_delay :: "bool \<Rightarrow> duration \<Rightarrow> u32 \<Rightarrow> duration option" where
  "backoff_delay oc base_backoff attempt =
     (case pow2_u64 oc (attempt - 1) of
        None \<Rightarrow> None
      | Some factor \<Rightarrow>
          let backoff_ms =
                f64_mul (f64_of_nat (as_millis base_backoff)) (f64_of_nat (unat factor))
          in Some (from_millis (f64_as_u64 (f64_mul backoff_ms (jitter attempt)))))"

section \<open>The retry loop\<close>

definition set_breaker_gauge ::
  "string \<Rightarrow> string \<Rightarrow> circuit_breaker \<Rightarrow> 's env \<Rightarrow> 's env" where
  "set_breaker_gauge contract backend cb e =
     emit (SetGauge CircuitBreakerState [contract, backend] (current_state_code cb)) e"

partial_function (option) retry_loop ::
  "bool \<Rightarrow> resilience_config \<Rightarrow> string \<Rightarrow> string \<Rightarrow> string \<Rightarrow> ('s, 'a) future
     \<Rightarrow> u32 \<Rightarrow> 's guarded \<Rightarrow> ('s, 'a) outcome option" where
  "retry_loop oc cfg contract backend op_name operation prev st =
     (case st of (cb, e) \<Rightarrow>
      if oc \<and> prev = - 1 then Some (Aborted (cb, e))
      else
        let attempt = prev + 1 in
        (case with_timeout (from_secs (operation_timeout_seconds cfg)) operation e of
           Panicked e1 \<Rightarrow> Some (Aborted (cb, e1))
         | Unfinished e1 \<Rightarrow> None
         | Finished (Inr val) e1 \<Rightarrow>
             let cb1 = on_success cb
             in Some (Returned (Inr val) (cb1, set_breaker_gauge contract backend cb1 e1))
         | Finished (Inl err) e1 \<Rightarrow>
             (case on_failure oc (clock e1) cb of (panicked, cb1) \<Rightarrow>
                if panicked then Some (Aborted (cb1, e1))
                else
                  let e2 = set_breaker_gauge contract backend cb1 e1 in
                  if max_retries cfg < attempt then Some (Returned (Inl err) (cb1, e2))
                  else
                    let e3 = emit (Inc RetriesTotal [contract, op_name, backend]) e2 in
                    (case backoff_delay oc (from_millis (base_backoff_ms cfg)) attempt of
                       None \<Rightarrow> Some (Aborted (cb1, e3))
                     | Some d \<Rightarrow>
                         retry_loop oc cfg contract backend op_name operation attempt
                           (cb1, sleep d e3)))))"

definition execute ::
  "bool \<Rightarrow> resilience_config \<Rightarrow> string \<Rightarrow> string \<Rightarrow> string \<Rightarrow> ('s, 'a) future
     \<Rightarrow> ('s, 'a) guarded_call" where
  "execute oc cfg contract backend op_name operation st =
     (case st of (cb, e) \<Rightarrow>
        (case can_execute (clock e) cb of
           (Inl err, cb1) \<Rightarrow> Some (Returned (Inl err) (cb1, e))
         | (Inr _, cb1) \<Rightarrow> retry_loop oc cfg contract backend op_name operation 0 (cb1, e)))"

text \<open>\<open>ResilientExecutor::new\<close>: the breaker a fresh executor starts with.\<close>

definition executor_breaker :: "resilience_config \<Rightarrow> circuit_breaker" where
  "executor_breaker cfg =
     cb_new (circuit_breaker_threshold cfg) (from_secs (circuit_breaker_reset_seconds cfg))"

section \<open>One turn of the loop\<close>

lemma retry_loop_success:
  assumes "\<not> (oc \<and> prev = - 1)"
    and "with_timeout (from_secs (operation_timeout_seconds cfg)) operation e = Finished (Inr v) e1"
  shows "retry_loop oc cfg contract backend op_name operation prev (cb, e) =
    Some (Returned (Inr v) (on_success cb, set_breaker_gauge contract backend (on_success cb) e1))"
  using assms by (subst retry_loop.simps) (simp add: Let_def)

lemma retry_loop_failure:
  assumes "\<not> (oc \<and> prev = - 1)"
    and "with_timeout (from_secs (operation_timeout_seconds cfg)) operation e = Finished (Inl err) e1"
    and "on_failure oc (clock e1) cb = (False, cb1)"
  shows "retry_loop oc cfg contract backend op_name operation prev (cb, e) =
    (let attempt = prev + 1; e2 = set_breaker_gauge contract backend cb1 e1 in
     if max_retries cfg < attempt then Some (Returned (Inl err) (cb1, e2))
     else
       let e3 = emit (Inc RetriesTotal [contract, op_name, backend]) e2 in
       (case backoff_delay oc (from_millis (base_backoff_ms cfg)) attempt of
          None \<Rightarrow> Some (Aborted (cb1, e3))
        | Some d \<Rightarrow>
            retry_loop oc cfg contract backend op_name operation attempt (cb1, sleep d e3)))"
  using assms by (subst retry_loop.simps) (auto simp: Let_def)

text \<open>
  The loop either returns at once or goes round with the next attempt, which is still within
  the budget of retries.
\<close>

lemma retry_loop_turn:
  obtains (stop) out where
      "retry_loop oc cfg contract backend op_name operation prev (cb, e) = Some out"
  | (again) cb1 e1 d where
      "retry_loop oc cfg contract backend op_name operation prev (cb, e) =
         retry_loop oc cfg contract backend op_name operation (prev + 1) (cb1, e1)"
      "prev + 1 \<le> max_retries cfg" "\<not> (oc \<and> prev = - 1)"
      "backoff_delay oc (from_millis (base_backoff_ms cfg)) (prev + 1) = Some d"
proof -
  let ?loop = "retry_loop oc cfg contract backend op_name operation prev (cb, e)"
  let ?run = "with_timeout (from_secs (operation_timeout_seconds cfg)) operation e"
  let ?delay = "backoff_delay oc (from_millis (base_backoff_ms cfg)) (prev + 1)"
  note unfold = retry_loop.simps[of oc cfg contract backend op_name operation prev "(cb, e)"]
  have stops: thesis if "\<exists>out. ?loop = Some out"
    using that stop by blast
  show thesis
  proof (cases "oc \<and> prev = - 1")
    case True
    then show thesis by (intro stops) (subst unfold, simp)
  next
    case False
    show thesis
    proof (cases ?run)
      case (Panicked e1)
      with False show thesis by (intro stops) (auto simp: unfold)
    next
      case (Finished r e1)
      show thesis
      proof (cases r)
        case (Inr v)
        with Finished False show thesis by (intro stops) (auto simp: unfold Let_def)
      next
        case (Inl err)
        obtain panicked cb1 where f: "on_failure oc (clock e1) cb = (panicked, cb1)"
          by (cases "on_failure oc (clock e1) cb")
        show thesis
        proof (cases "panicked \<or> max_retries cfg < prev + 1 \<or> ?delay = None")
          case True
          with Finished Inl False f show thesis
            by (intro stops) (auto simp: unfold Let_def)
        next
          case goesOn: False
          then obtain d where "?delay = Some d" by auto
          with goesOn Finished Inl False f show thesis
            by (intro again[of cb1 _ d]) (auto simp: retry_loop_failure Let_def not_less)
        qed
      qed
    qed simp
  qed
qed

section \<open>Termination\<close>

text \<open>
  Below the top of \<open>u32\<close> the attempt counter passes \<open>max_retries\<close>; at the top, with overflow
  checks, the power of two overflows first.
\<close>

lemma retry_loop_terminates_below:
  assumes "prev \<le> max_retries cfg" and "max_retries cfg \<noteq> - 1"
  shows "\<exists>out. retry_loop oc cfg contract backend op_name operation prev st = Some out"
  using assms(1)
proof (induction "unat (max_retries cfg - prev)" arbitrary: prev st rule: less_induct)
  case less
  obtain cb e where st: "st = (cb, e)" by (cases st)
  show ?case
  proof (cases rule: retry_loop_turn[of oc cfg contract backend op_name operation prev cb e])
    case (stop out)
    then show ?thesis by (auto simp: st)
  next
    case (again cb1 e1 d)
    have "unat (max_retries cfg - (prev + 1)) < unat (max_retries cfg - prev)"
    proof -
      have "unat (prev + 1) = unat prev + 1"
        using less.prems u32_below_max[OF assms(2)] by (intro unat_succ) (simp add: word_le_nat_alt)
      with less.prems again(2) show ?thesis
        by (simp add: unat_sub word_le_nat_alt)
    qed
    from less.hyps[OF this again(2)] again(1) show ?thesis by (simp add: st)
  qed
qed

lemma retry_loop_terminates_checked:
  assumes "unat prev \<le> 64"
  shows "\<exists>out. retry_loop True cfg contract backend op_name operation prev st = Some out"
  using assms
proof (induction "65 - unat prev" arbitrary: prev st rule: less_induct)
  case less
  obtain cb e where st: "st = (cb, e)" by (cases st)
  have next_attempt: "unat (prev + 1) = unat prev + 1"
    using less.prems by (simp add: unat_succ)
  show ?case
  proof (cases rule: retry_loop_turn[of True cfg contract backend op_name operation prev cb e])
    case (stop out)
    then show ?thesis by (auto simp: st)
  next
    case (again cb1 e1 d)
    have "unat prev < 64"
      using again(4) by (auto simp: backoff_delay_def pow2_u64_def split: if_splits)
    with next_attempt have "65 - unat (prev + 1) < 65 - unat prev" "unat (prev + 1) \<le> 64"
      by simp_all
    from less.hyps[OF this] again(1) show ?thesis by (simp add: st)
  qed
qed

lemma execute_terminates:
  assumes "oc \<or> max_retries cfg \<noteq> - 1"
  shows "\<exists>out. execute oc cfg contract backend op_name operation st = Some out"
proof -
  obtain cb e where st: "st = (cb, e)" by (cases st)
  have "\<exists>out. retry_loop oc cfg contract backend op_name operation 0 st' = Some out" for st'
  proof (cases "max_retries cfg = - 1")
    case True
    with assms show ?thesis using retry_loop_terminates_checked[of 0] by simp
  next
    case False
    then show ?thesis by (intro retry_loop_terminates_below) simp
  qed
  then show ?thesis by (auto simp: execute_def st split: prod.splits sum.splits)
qed

section \<open>A loop that never returns\<close>

lemma retry_loop_diverges:
  assumes fails: "\<And>e. \<exists>err e1.
      with_timeout (from_secs (operation_timeout_seconds cfg)) operation e = Finished (Inl err) e1"
    and top: "max_retries cfg = - 1"
  shows "retry_loop False cfg contract backend op_name operation prev st = None"
proof (rule ccontr)
  assume "retry_loop False cfg contract backend op_name operation prev st \<noteq> None"
  then obtain out where
    ret: "retry_loop False cfg contract backend op_name operation prev st = Some out" by auto
  have "oc \<or> max_retries cfg' \<noteq> - 1 \<or> \<not> (\<forall>e. \<exists>err e1.
      with_timeout (from_secs (operation_timeout_seconds cfg')) operation' e = Finished (Inl err) e1)"
    if "retry_loop oc cfg' c b opn operation' a s = Some out'" for oc cfg' c b opn operation' a s out'
  proof (rule retry_loop.raw_induct[where P = "\<lambda>oc cfg c b opn operation a s out.
        oc \<or> max_retries cfg \<noteq> - 1 \<or> \<not> (\<forall>e. \<exists>err e1.
          with_timeout (from_secs (operation_timeout_seconds cfg)) operation e
            = Finished (Inl err) e1)", OF _ that], goal_cases)
    case (1 loop oc cfg c b opn operation a s out)
    obtain cb e where s: "s = (cb, e)" by (cases s)
    show ?case
    proof (rule ccontr)
      assume "\<not> ?thesis"
      then have h: "\<not> oc" "max_retries cfg = - 1"
        and f: "\<And>e. \<exists>err e1. with_timeout (from_secs (operation_timeout_seconds cfg)) operation e
            = Finished (Inl err) e1" by auto
      obtain err e1 where
        r: "with_timeout (from_secs (operation_timeout_seconds cfg)) operation e = Finished (Inl err) e1"
        using f by blast
      have "\<not> fst (on_failure oc (clock e1) cb)" using h(1) by (simp add: on_failure_def Let_def)
      then obtain cb1 where "on_failure oc (clock e1) cb = (False, cb1)"
        by (cases "on_failure oc (clock e1) cb") simp
      with 1(2) h r obtain st' where "loop oc cfg c b opn operation (a + 1) st' = Some out"
        by (auto simp: s Let_def backoff_delay_def pow2_u64_def split: if_splits)
      from 1(1)[OF this] h f show False by blast
    qed
  qed
  from this[OF ret] fails top show False by blast
qed

lemma execute_never_returns:
  assumes "max_retries cfg = - 1" and "cb_state cb \<noteq> Open"
    and "\<And>e. \<exists>err e1. with_timeout (from_secs (operation_timeout_seconds cfg)) operation e
      = Finished (Inl err) e1"
  shows "execute False cfg contract backend op_name operation (cb, e) = None"
  using assms by (simp add: execute_def retry_loop_diverges)

section \<open>Refinement through the executor\<close>

text \<open>
  \<open>serves_call\<close> is \<open>serves\<close> for guarded calls: unless the breaker is open, the call returns what
  the abstract operation returns and leaves the breaker closed.
\<close>

definition serves_call ::
  "('s \<Rightarrow> bool) \<Rightarrow> ('s \<Rightarrow> 'x) \<Rightarrow> ('s, 'a) guarded_call \<Rightarrow> ('x \<Rightarrow> 'a \<times> 'x) \<Rightarrow> bool" where
  "serves_call ok \<alpha> call g \<longleftrightarrow>
     (\<forall>cb e. ok (store e) \<longrightarrow> cb_state cb \<noteq> Open \<longrightarrow>
        (\<exists>cb' e'. call (cb, e) = Some (Returned (Inr (fst (g (\<alpha> (store e))))) (cb', e'))
            \<and> \<alpha> (store e') = snd (g (\<alpha> (store e))) \<and> ok (store e') \<and> cb_state cb' = Closed))"

lemma serves_callE:
  assumes "serves_call ok \<alpha> call g" and "ok (store e)" and "cb_state cb \<noteq> Open"
  obtains cb' e' where "call (cb, e) = Some (Returned (Inr (fst (g (\<alpha> (store e))))) (cb', e'))"
    and "\<alpha> (store e') = snd (g (\<alpha> (store e)))" and "ok (store e')" and "cb_state cb' = Closed"
  using assms unfolding serves_call_def by blast

lemma serves_execute [serves_intros]:
  assumes "serves ok \<alpha> L fut g" and "L \<le> from_secs (operation_timeout_seconds cfg)"
  shows "serves_call ok \<alpha> (execute oc cfg contract backend op_name fut) g"
  unfolding serves_call_def
proof (intro allI impI)
  fix cb :: circuit_breaker and e :: "'a env"
  assume ok: "ok (store e)" and st: "cb_state cb \<noteq> Open"
  have "in_time L (Some (from_secs (operation_timeout_seconds cfg)))"
    using assms(2) by (simp add: in_time_def)
  with assms(1) ok obtain e' where
    run: "fut (Some (from_secs (operation_timeout_seconds cfg))) e
      = Finished (Inr (fst (g (\<alpha> (store e))))) e'" and
    e': "\<alpha> (store e') = snd (g (\<alpha> (store e)))" "ok (store e')"
    by (rule servesE)
  have "with_timeout (from_secs (operation_timeout_seconds cfg)) fut e
      = Finished (Inr (fst (g (\<alpha> (store e))))) e'"
    by (simp add: with_timeout_def run)
  then have "execute oc cfg contract backend op_name fut (cb, e)
      = Some (Returned (Inr (fst (g (\<alpha> (store e)))))
          (on_success cb, set_breaker_gauge contract backend (on_success cb) e'))"
    using st by (simp add: execute_def retry_loop_success)
  with e' show "\<exists>cb' e'. execute oc cfg contract backend op_name fut (cb, e)
        = Some (Returned (Inr (fst (g (\<alpha> (store e))))) (cb', e'))
      \<and> \<alpha> (store e') = snd (g (\<alpha> (store e))) \<and> ok (store e') \<and> cb_state cb' = Closed"
    by (auto simp: set_breaker_gauge_def)
qed

section \<open>Sequences of guarded calls\<close>

text \<open>
  A client issues a list of calls, each named by a value of type \<open>'c\<close>, and collects the
  replies; it stops at a panic or at a call that does not return. The specification runs the
  same list on the abstract state.
\<close>

fun map_outcome :: "('a \<Rightarrow> 'b) \<Rightarrow> ('s, 'a) outcome \<Rightarrow> ('s, 'b) outcome" where
  "map_outcome f (Returned r st) = Returned (map_sum id f r) st"
| "map_outcome f (Aborted st) = Aborted st"

definition map_call :: "('a \<Rightarrow> 'b) \<Rightarrow> ('s, 'a) guarded_call \<Rightarrow> ('s, 'b) guarded_call" where
  "map_call f call st = map_option (map_outcome f) (call st)"

fun run_calls ::
  "('c \<Rightarrow> ('s, 'r) guarded_call) \<Rightarrow> 'c list \<Rightarrow> 's guarded \<Rightarrow> ('r result list \<times> 's guarded) option" where
  "run_calls call [] st = Some ([], st)"
| "run_calls call (c # cs) st =
     (case call c st of
        Some (Returned r st1) \<Rightarrow> map_option (apfst (Cons r)) (run_calls call cs st1)
      | _ \<Rightarrow> None)"

fun run_spec :: "('c \<Rightarrow> 'x \<Rightarrow> 'r \<times> 'x) \<Rightarrow> 'c list \<Rightarrow> 'x \<Rightarrow> 'r list \<times> 'x" where
  "run_spec spec [] x = ([], x)"
| "run_spec spec (c # cs) x =
     (case spec c x of (r, x1) \<Rightarrow> apfst (Cons r) (run_spec spec cs x1))"

lemma serves_map_call [serves_intros]:
  assumes "serves_call ok \<alpha> call g"
  shows "serves_call ok \<alpha> (map_call f call) (\<lambda>x. apfst f (g x))"
  using assms unfolding serves_call_def map_call_def
  by (fastforce simp: apfst_def map_prod_def split: prod.splits)

lemma run_calls_serve_on:
  assumes "\<And>c. P c \<Longrightarrow> serves_call ok \<alpha> (call c) (spec c)"
    and "\<forall>c \<in> set cs. P c" and "ok (store e)" and "cb_state cb \<noteq> Open"
  shows "\<exists>cb' e'. run_calls call cs (cb, e)
        = Some (map Inr (fst (run_spec spec cs (\<alpha> (store e)))), (cb', e'))
      \<and> \<alpha> (store e') = snd (run_spec spec cs (\<alpha> (store e)))
      \<and> ok (store e') \<and> cb_state cb' \<noteq> Open"
  using assms(2-4)
proof (induction cs arbitrary: cb e)
  case Nil
  then show ?case by simp
next
  case (Cons c cs)
  let ?x = "\<alpha> (store e)"
  have "serves_call ok \<alpha> (call c) (spec c)" using assms(1) Cons.prems(1) by simp
  from this Cons.prems(2,3) obtain cb1 e1 where
    c: "call c (cb, e) = Some (Returned (Inr (fst (spec c ?x))) (cb1, e1))"
      "\<alpha> (store e1) = snd (spec c ?x)" "ok (store e1)" "cb_state cb1 = Closed"
    by (rule serves_callE)
  have "\<forall>c \<in> set cs. P c" "cb_state cb1 \<noteq> Open" using Cons.prems(1) c(4) by simp_all
  from Cons.IH[OF this(1) c(3) this(2)] show ?case
    by (auto simp: c apfst_def map_prod_def split: prod.splits)
qed

lemma run_calls_serve:
  assumes "\<And>c. serves_call ok \<alpha> (call c) (spec c)"
    and "ok (store e)" and "cb_state cb \<noteq> Open"
  shows "\<exists>cb' e'. run_calls call cs (cb, e)
        = Some (map Inr (fst (run_spec spec cs (\<alpha> (store e)))), (cb', e'))
      \<and> \<alpha> (store e') = snd (run_spec spec cs (\<alpha> (store e)))
      \<and> ok (store e') \<and> cb_state cb' \<noteq> Open"
  using run_calls_serve_on[where P = "\<lambda>_. True", OF assms(1) _ assms(2,3)] by simp

text \<open>From a fresh executor on a store that satisfies the invariant.\<close>

lemma fresh_stack_runs:
  assumes "\<And>c. P c \<Longrightarrow> serves_call ok \<alpha> (call c) (spec c)" and "\<forall>c \<in> set cs. P c" and "ok s"
  shows "\<exists>cb' e'. run_calls call cs (executor_breaker cfg, \<lparr>clock = t, events = evs, store = s\<rparr>)
        = Some (map Inr (fst (run_spec spec cs (\<alpha> s))), (cb', e'))
      \<and> \<alpha> (store e') = snd (run_spec spec cs (\<alpha> s))"
  using run_calls_serve_on[of P ok \<alpha> call spec cs "\<lparr>clock = t, events = evs, store = s\<rparr>"
      "executor_breaker cfg", OF assms(1,2)] assms(3)
  by (auto simp: executor_breaker_def cb_new_def)

lemma default_operation_timeout: "from_secs (operation_timeout_seconds default_resilience) = 5000000000"
  by (simp add: default_resilience_def default_value_defs from_secs_def)

end
