(* ===== verification/Retry_Policy.thy ===== *)
theory Retry_Policy
  imports Executor
begin

text \<open>
  What the retry loop does over all its attempts: the range of the delays, the attempt that
  decides the result when the operation's results are known in advance, the breaker it leaves,
  and the longest time a call can take.
\<close>

section \<open>The delay\<close>

lemma f64_quarter: "f64_round (3 / 4) = 3 / 4" "f64_round (5 / 4) = 5 / 4" "f64_round (1 / 2) = 1 / 2"
  using f64_round_representable[of 3 "-2"] f64_round_representable[of 5 "-2"]
    f64_round_representable[of 1 "-1"]
  by (simp_all add: power_int_minus power2_eq_square)

lemma f64_rem_bounds:
  assumes "0 < y"
  shows "0 \<le> f64_rem x y" "f64_rem x y < y"
proof -
  have "of_int \<lfloor>x / y\<rfloor> \<le> x / y" "x / y < of_int \<lfloor>x / y\<rfloor> + 1"
    by linarith+
  then have "of_int \<lfloor>x / y\<rfloor> * y \<le> x" "x < (of_int \<lfloor>x / y\<rfloor> + 1) * y"
    using assms by (simp_all only: pos_le_divide_eq pos_divide_less_eq)
  then show "0 \<le> f64_rem x y" "f64_rem x y < y"
    by (simp_all add: f64_rem_def algebra_simps)
qed

lemma jitter_bounds: "3 / 4 \<le> jitter attempt" "jitter attempt \<le> 5 / 4"
proof -
  define r where "r = f64_rem (f64_mul (f64_of_nat (unat attempt)) 137) 50"
  have r: "0 \<le> r" "r < 50" unfolding r_def by (rule f64_rem_bounds; simp)+
  have q: "0 \<le> f64_div r 100" "f64_div r 100 \<le> 1 / 2"
    using f64_round_nonneg f64_round_mono[of "r / 100" "1 / 2"] r by (simp_all add: f64_div_def f64_quarter)
  show "3 / 4 \<le> jitter attempt" "jitter attempt \<le> 5 / 4"
    unfolding jitter_def f64_add_def r_def[symmetric] using q
    by (intro f64_round_between[where a = "3 / 4" and b = "5 / 4"] f64_quarter; simp)+
qed

text \<open>
  For a delay that fits in 50 bits before the jitter, the whole milliseconds slept lie within a
  quarter of the exponential value.
\<close>

lemma backoff_delay_bounds:
  assumes "0 < attempt" and "unat attempt \<le> 64"
    and small: "unat base_ms * 2 ^ (unat attempt - 1) < 2 ^ 50"
  shows "\<exists>ms. backoff_delay oc (from_millis base_ms) attempt = Some (from_millis ms)
    \<and> 3 * (unat base_ms * 2 ^ (unat attempt - 1)) div 4 \<le> unat ms
    \<and> unat ms \<le> 5 * (unat base_ms * 2 ^ (unat attempt - 1)) div 4"
proof -
  define n where "n = unat attempt - 1"
  have pos: "0 < unat attempt" using assms(1) by (simp add: word_less_nat_alt)
  then have att: "unat (attempt - 1) = n"
    by (simp add: n_def unat_sub word_le_nat_alt)
  have n: "n < 64" using assms(2) pos by (simp add: n_def)
  have fac: "unat (2 ^ n :: u64) = 2 ^ n"
  proof -
    have "(2 :: nat) ^ n < 2 ^ 64" using n by (intro power_strict_increasing) simp_all
    then show ?thesis using unat_of_nat[of "2 ^ n", where 'a = 64] by simp
  qed
  define b where "b = unat base_ms * 2 ^ n"
  have b: "b < 2 ^ 50" using small by (simp add: b_def n_def)
  have base: "f64_of_nat (as_millis (from_millis base_ms)) = of_nat (unat base_ms)"
    if "0 < unat base_ms"
  proof -
    have "unat base_ms \<le> b" by (simp add: b_def)
    with b have "unat base_ms < 2 ^ 53" by simp
    then show ?thesis unfolding as_millis_from_millis f64_of_nat_def by (rule f64_round_of_nat)
  qed
  have two: "f64_of_nat (2 ^ n) = of_nat (2 ^ n)"
    using f64_round_representable[of 1 "int n"] by (simp add: f64_of_nat_def)
  have prod: "f64_mul (f64_of_nat (as_millis (from_millis base_ms))) (f64_of_nat (2 ^ n)) = of_nat b"
  proof (cases "unat base_ms = 0")
    case True
    then show ?thesis by (simp add: b_def f64_mul_def f64_of_nat_def f64_round_def)
  next
    case False
    then have "f64_of_nat (as_millis (from_millis base_ms)) * f64_of_nat (2 ^ n) = of_nat b"
      by (simp only: base two b_def of_nat_mult neq0_conv)
    then show ?thesis using b by (simp add: f64_mul_def f64_round_of_nat)
  qed
  define x where "x = f64_mul (of_nat b) (jitter attempt)"
  have quarter: "of_nat (m div 4) \<le> (of_nat m / 4 :: rat)" for m
    using floor_divide_of_nat_eq[of m 4, where 'a = rat] of_int_floor_le[of "of_nat m / (4 :: rat)"]
    by simp
  have lo: "of_nat (3 * b div 4) \<le> x"
  proof -
    have "of_nat (3 * b div 4) \<le> (of_nat b * (3 / 4) :: rat)"
      using quarter[of "3 * b"] by simp
    also have "\<dots> \<le> of_nat b * jitter attempt"
      using jitter_bounds by (intro mult_left_mono) auto
    finally have "f64_round (of_nat (3 * b div 4)) \<le> x"
      unfolding x_def f64_mul_def by (rule f64_round_mono)
    then show ?thesis using b by (simp add: f64_round_of_nat)
  qed
  have hi: "x \<le> of_nat (5 * b) / 4"
  proof -
    have "of_nat b * jitter attempt \<le> of_nat (5 * b) / (4 :: rat)"
      using mult_left_mono[OF jitter_bounds(2), of "of_nat b" attempt] by simp
    then have "x \<le> f64_round (of_nat (5 * b) / 4)"
      unfolding x_def f64_mul_def by (rule f64_round_mono)
    also have "\<dots> = of_nat (5 * b) / 4"
      using f64_round_representable[of "int (5 * b)" "-2"] b
      by (simp add: power_int_minus power2_eq_square)
    finally show ?thesis .
  qed
  define ms where "ms = f64_as_u64 x"
  have fl: "int (3 * b div 4) \<le> \<lfloor>x\<rfloor>" "\<lfloor>x\<rfloor> \<le> int (5 * b div 4)"
  proof -
    show "int (3 * b div 4) \<le> \<lfloor>x\<rfloor>" using lo by (simp add: le_floor_iff)
    have "\<lfloor>x\<rfloor> \<le> \<lfloor>of_nat (5 * b) / (4 :: rat)\<rfloor>" using hi by (rule floor_mono)
    also have "\<dots> = int (5 * b div 4)"
      using floor_divide_of_nat_eq[of "5 * b" 4, where 'a = rat] by simp
    finally show "\<lfloor>x\<rfloor> \<le> int (5 * b div 4)" .
  qed
  have cap: "5 * b div 4 < 2 ^ 64" using b by simp
  have "x < 2 ^ 64"
    using fl(2) cap by (simp add: floor_le_iff)
  then have "unat ms = nat \<lfloor>x\<rfloor>"
    using fl cap by (simp add: ms_def f64_as_u64_def unat_of_nat)
  with fl have ms: "3 * b div 4 \<le> unat ms" "unat ms \<le> 5 * b div 4" by linarith+
  have "backoff_delay oc (from_millis base_ms) attempt = Some (from_millis ms)"
    using n by (simp add: backoff_delay_def pow2_u64_def att fac prod[unfolded as_millis_from_millis] Let_def
        ms_def x_def)
  with ms show ?thesis by (auto simp: b_def n_def)
qed

text \<open>
  Without overflow checks the factor is zero from the 65th attempt on, and so is the delay;
  with them the attempt panics.
\<close>

lemma backoff_delay_overflow:
  assumes "64 \<le> unat (attempt - 1)"
  shows "backoff_delay True base attempt = None"
    and "backoff_delay False base attempt = Some 0"
proof -
  have fac: "(2 :: u64) ^ unat (attempt - 1) = 0"
    using assms by simp
  have zero: "f64_of_nat 0 = 0" "f64_mul x 0 = 0" "f64_mul 0 x = 0" "f64_as_u64 0 = 0"
    "from_millis 0 = 0" for x
    by (simp_all add: f64_of_nat_def f64_mul_def f64_round_def f64_as_u64_def from_millis_def)
  show "backoff_delay True base attempt = None" "backoff_delay False base attempt = Some 0"
    using assms by (simp_all add: backoff_delay_def pow2_u64_def fac zero Let_def)
qed

lemma backoff_delay_Some: "oc \<longrightarrow> unat (attempt - 1) < 64 \<Longrightarrow> \<exists>d. backoff_delay oc base attempt = Some d"
  by (auto simp: backoff_delay_def pow2_u64_def Let_def)

section \<open>An attempt after a failed one\<close>

text \<open>
  A first attempt that fails, and a second one that succeeds on the state the first one left:
  the call returns what the second one says.
\<close>

lemma second_attempt_answers:
  assumes "with_timeout (from_secs (operation_timeout_seconds cfg)) fut e = Finished (Inl err) e1"
    and "max_retries cfg \<noteq> 0"
    and "\<And>e2. store e2 = store e1 \<Longrightarrow>
      \<exists>e3. with_timeout (from_secs (operation_timeout_seconds cfg)) fut e2 = Finished (Inr v) e3 \<and> store e3 = s"
  shows "\<exists>cb' e3. execute oc cfg contract backend op_name fut (executor_breaker cfg, e)
      = Some (Returned (Inr v) (cb', e3)) \<and> store e3 = s"
proof -
  obtain cb1 where cb1: "on_failure oc (clock e1) (executor_breaker cfg) = (False, cb1)"
    by (simp add: on_failure_def executor_breaker_def cb_new_def Let_def)
  obtain d where d: "backoff_delay oc (from_millis (base_backoff_ms cfg)) 1 = Some d"
    using backoff_delay_Some[of oc 1 "from_millis (base_backoff_ms cfg)"] by auto
  let ?e2 = "sleep d (emit (Inc RetriesTotal [contract, op_name, backend]) (set_breaker_gauge contract backend cb1 e1))"
  have "store ?e2 = store e1" by (simp add: set_breaker_gauge_def)
  from assms(3)[OF this] obtain e3 where
    e3: "with_timeout (from_secs (operation_timeout_seconds cfg)) fut ?e2 = Finished (Inr v) e3" "store e3 = s"
    by blast
  have "can_execute (clock e) (executor_breaker cfg) = (Inr (), executor_breaker cfg)"
    by (simp add: executor_breaker_def cb_new_def can_execute_def)
  moreover have "\<not> max_retries cfg < 1" using assms(2) by simp
  ultimately have "execute oc cfg contract backend op_name fut (executor_breaker cfg, e)
      = retry_loop oc cfg contract backend op_name fut 1 (cb1, ?e2)"
    using retry_loop_failure[of oc 0 cfg fut e err e1 "executor_breaker cfg" cb1 contract backend op_name]
      assms(1) cb1 d by (simp add: execute_def Let_def)
  also have "\<dots> = Some (Returned (Inr v) (on_success cb1, set_breaker_gauge contract backend (on_success cb1) e3))"
    by (rule retry_loop_success[OF _ e3(1)]) simp
  finally show ?thesis using e3(2) by (simp add: set_breaker_gauge_def)
qed

section \<open>Which attempt decides\<close>

text \<open>
  An operation whose results are known in advance: the store counts the calls, the \<open>i\<close>-th call
  (from zero) takes \<open>lat\<close> and returns \<open>script i\<close>.
\<close>

definition scripted :: "duration \<Rightarrow> (nat \<Rightarrow> 'a result) \<Rightarrow> (nat, 'a) future" where
  "scripted lat script = atomic lat (\<lambda>n. Some (script n, Suc n))"

lemma with_timeout_scripted:
  assumes "lat \<le> d"
  shows "with_timeout d (scripted lat script) e =
    Finished (script (store e)) ((sleep lat e)\<lparr>store := Suc (store e)\<rparr>)"
  using assms by (simp add: with_timeout_def scripted_def atomic_def)

text \<open>The attempt that decides: the first success, or the last of the budget.\<close>

definition decides :: "(nat \<Rightarrow> 'a result) \<Rightarrow> nat \<Rightarrow> nat \<Rightarrow> nat \<Rightarrow> bool" where
  "decides script n N k \<longleftrightarrow>
     n \<le> k \<and> k \<le> N \<and> (\<forall>i. n \<le> i \<and> i < k \<longrightarrow> is_err (script i)) \<and> (k < N \<longrightarrow> \<not> is_err (script k))"

lemma decides_now: "n \<le> N \<Longrightarrow> \<not> is_err (script n) \<Longrightarrow> decides script n N n"
  by (auto simp: decides_def)

lemma decides_last: "decides script N N N"
  by (auto simp: decides_def)

lemma decides_later: "is_err (script n) \<Longrightarrow> decides script (Suc n) N k \<Longrightarrow> decides script n N k"
  unfolding decides_def by (metis Suc_leI le_neq_implies_less less_or_eq_imp_le order.trans Suc_leD)

text \<open>The breaker afterwards, \<open>m\<close> failures later if the call failed.\<close>

definition breaker_after ::
  "'a result \<Rightarrow> nat \<Rightarrow> circuit_breaker \<Rightarrow> circuit_breaker \<Rightarrow> bool" where
  "breaker_after r m cb cb' \<longleftrightarrow>
     failure_threshold cb' = failure_threshold cb
     \<and> (if is_err r
        then unat (consecutive_failures cb') = unat (consecutive_failures cb) + m
          \<and> (unat (failure_threshold cb) \<le> unat (consecutive_failures cb) + m
              \<longrightarrow> cb_state cb' = Open)
        else cb_state cb' = Closed \<and> consecutive_failures cb' = 0)"

lemma breaker_after_failure:
  assumes "on_failure oc now cb = (False, cb1)" and "unat (consecutive_failures cb) + 1 < 2 ^ 32"
  shows "unat (consecutive_failures cb1) = unat (consecutive_failures cb) + 1"
    and "failure_threshold cb1 = failure_threshold cb"
    and "unat (failure_threshold cb) \<le> unat (consecutive_failures cb) + 1 \<Longrightarrow> cb_state cb1 = Open"
  using on_failure_counts[OF assms(2), of oc now] breaker_frame(3)[of oc now cb] assms(1) by simp_all

text \<open>The attempt counter as a number, while it is within the budget.\<close>

lemma attempt_facts:
  fixes M :: u32
  assumes "n \<le> unat M" and "M \<noteq> - 1"
  shows "unat (of_nat n :: u32) = n" and "of_nat n \<noteq> (- 1 :: u32)"
    and "M < of_nat n + 1 \<longleftrightarrow> n = unat M"
proof -
  have small: "n + 1 < 2 ^ 32" using assms(1) u32_below_max[OF assms(2)] by simp
  then show words: "unat (of_nat n :: u32) = n"
    by (simp add: unat_of_nat)
  have "unat (of_nat n :: u32) \<noteq> unat (- 1 :: u32)"
    using small by (simp only: words u32_max)
  then show "of_nat n \<noteq> (- 1 :: u32)" by metis
  have "unat (of_nat n + 1 :: u32) = n + 1"
    using small by (simp only: unat_succ words)
  with assms(1) show "M < of_nat n + 1 \<longleftrightarrow> n = unat M"
    by (simp only: word_less_nat_alt) linarith
qed

lemma breaker_after_step:
  assumes "on_failure oc now cb = (False, cb1)" and "unat (consecutive_failures cb) + Suc m < 2 ^ 32"
    and "breaker_after r m cb1 cb'"
  shows "breaker_after r (Suc m) cb cb'"
  using breaker_after_failure[OF assms(1)] assms(2,3)
  by (auto simp: breaker_after_def split: if_splits)

lemma retry_loop_script:
  fixes cfg contract backend op_name
  defines "N \<equiv> unat (max_retries cfg)" and "labels \<equiv> [contract, op_name, backend]"
  assumes top: "max_retries cfg \<noteq> - 1" and checked: "oc \<longrightarrow> N \<le> 64"
    and lat: "lat \<le> from_secs (operation_timeout_seconds cfg)"
    and "n \<le> N" and "store e = n" and "unat (consecutive_failures cb) + Suc (N - n) < 2 ^ 32"
  shows "\<exists>k cb' e'. decides script n N k
    \<and> retry_loop oc cfg contract backend op_name (scripted lat script) (of_nat n) (cb, e)
        = Some (Returned (script k) (cb', e'))
    \<and> store e' = Suc k
    \<and> counter_value RetriesTotal labels (events e')
        = counter_value RetriesTotal labels (events e) + (k - n)
    \<and> breaker_after (script k) (Suc (N - n)) cb cb'"
  using assms(6-8)
proof (induction "N - n" arbitrary: n cb e rule: less_induct)
  case less
  note facts = attempt_facts[OF less.prems(1)[unfolded N_def] top]
  define e1 where "e1 = (sleep lat e)\<lparr>store := Suc n\<rparr>"
  have run: "with_timeout (from_secs (operation_timeout_seconds cfg)) (scripted lat script) e
      = Finished (script n) e1"
    using with_timeout_scripted[OF lat, of script e] less.prems(2) by (simp add: e1_def)
  have e1: "store e1 = Suc n" "events e1 = events e" by (simp_all add: e1_def)
  show ?case
  proof (cases "script n")
    case (Inr v)
    have "decides script n N n" using less.prems(1) Inr by (simp add: decides_now)
    moreover have "breaker_after (script n) (Suc (N - n)) cb (on_success cb)"
      by (simp add: breaker_after_def Inr)
    ultimately show ?thesis
      using facts(2) run e1 Inr retry_loop_success[where operation = "scripted lat script" and v = v]
      by (intro exI[of _ n]) (auto simp: set_breaker_gauge_def counter_value_def)
  next
    case (Inl err)
    have "unat (consecutive_failures cb) + 1 < 2 ^ 32" using less.prems(3) by simp
    then obtain cb1 where f: "on_failure oc (clock e1) cb = (False, cb1)"
      using on_failure_counts(1) by (metis prod.collapse)
    note after = breaker_after_failure[OF f \<open>_ + 1 < _\<close>]
    have failed: "is_err (script n)" by (simp add: Inl)
    define e2 where "e2 = set_breaker_gauge contract backend cb1 e1"
    have e2: "store e2 = Suc n" "counter_value RetriesTotal labels (events e2)
        = counter_value RetriesTotal labels (events e)"
      by (simp_all add: e2_def set_breaker_gauge_def e1) (simp add: counter_value_def)
    note step = retry_loop_failure[where prev = "of_nat n" and contract = contract
        and backend = backend and op_name = op_name, OF _ run[unfolded Inl] f, folded e2_def]
    show ?thesis
    proof (cases "n = N")
      case True
      have "breaker_after (script n) (Suc (N - n)) cb cb1"
        using after True failed by (simp add: breaker_after_def)
      moreover have "decides script n N n" using True by (simp add: decides_last)
      ultimately show ?thesis
        using step facts e2 True Inl N_def
        by (intro exI[of _ n]) (auto simp: Let_def)
    next
      case False
      have n: "Suc n \<le> N" "N - Suc n < N - n" using False less.prems(1) by simp_all
      have "oc \<longrightarrow> unat (of_nat n + 1 - 1 :: u32) < 64" using checked n(1) facts(1) by auto
      then obtain d where
        d: "backoff_delay oc (from_millis (base_backoff_ms cfg)) (of_nat n + 1) = Some d"
        using backoff_delay_Some by blast
      define e3 where "e3 = sleep d (emit (Inc RetriesTotal labels) e2)"
      have e3: "store e3 = Suc n" "counter_value RetriesTotal labels (events e3)
          = Suc (counter_value RetriesTotal labels (events e))"
        by (simp_all add: e3_def e2) (simp add: counter_value_def)
      have go: "retry_loop oc cfg contract backend op_name (scripted lat script) (of_nat n) (cb, e)
          = retry_loop oc cfg contract backend op_name (scripted lat script) (of_nat (Suc n)) (cb1, e3)"
        using step facts False d
        by (auto simp: Let_def N_def e3_def labels_def add.commute)
      have "unat (consecutive_failures cb1) + Suc (N - Suc n) < 2 ^ 32"
        using after(1) less.prems(3) n(1) by linarith
      from less.hyps[OF n(2) n(1) e3(1) this] obtain k cb' e' where
        k: "decides script (Suc n) N k" and
        r: "retry_loop oc cfg contract backend op_name (scripted lat script) (of_nat (Suc n)) (cb1, e3)
          = Some (Returned (script k) (cb', e'))" "store e' = Suc k"
          "counter_value RetriesTotal labels (events e')
            = counter_value RetriesTotal labels (events e3) + (k - Suc n)" and
        b: "breaker_after (script k) (Suc (N - Suc n)) cb1 cb'"
        by blast
      have "decides script n N k" using failed k by (rule decides_later)
      moreover have "breaker_after (script k) (Suc (N - n)) cb cb'"
        using breaker_after_step[OF f _ b] less.prems(3) n(1) by (simp add: Suc_diff_Suc)
      moreover have "Suc n \<le> k" using k by (simp add: decides_def)
      ultimately show ?thesis
        using r e3 go by (intro exI[of _ k] exI[of _ cb'] exI[of _ e']) auto
    qed
  qed
qed

section \<open>How long a call can take\<close>

definition delay_of :: "resilience_config \<Rightarrow> nat \<Rightarrow> duration" where
  "delay_of cfg i =
     the (backoff_delay False (from_millis (base_backoff_ms cfg)) (of_nat i))"

lemma backoff_delay_of:
  "backoff_delay oc (from_millis (base_backoff_ms cfg)) (of_nat i) = Some d \<Longrightarrow> d = delay_of cfg i"
  by (auto simp: delay_of_def backoff_delay_def pow2_u64_def split: if_splits)

text \<open>The attempts \<open>n + 1, \<dots>, N + 1\<close> and the delays between them.\<close>

definition time_left :: "resilience_config \<Rightarrow> nat \<Rightarrow> nat \<Rightarrow> duration" where
  "time_left cfg n N =
     (Suc N - n) * from_secs (operation_timeout_seconds cfg) + (\<Sum>i = Suc n..N. delay_of cfg i)"

definition max_call_time :: "resilience_config \<Rightarrow> duration" where
  "max_call_time cfg = time_left cfg 0 (unat (max_retries cfg))"

lemma time_left_step:
  assumes "n < N"
  shows "time_left cfg n N =
    from_secs (operation_timeout_seconds cfg) + delay_of cfg (Suc n) + time_left cfg (Suc n) N"
proof -
  have "(\<Sum>i = Suc n..N. delay_of cfg i) = delay_of cfg (Suc n) + (\<Sum>i = Suc (Suc n)..N. delay_of cfg i)"
    using assms by (simp add: sum.atLeast_Suc_atMost)
  with assms show ?thesis by (simp add: time_left_def Suc_diff_le)
qed

lemma time_left_attempt:
  "n \<le> N \<Longrightarrow> from_secs (operation_timeout_seconds cfg) \<le> time_left cfg n N"
  by (simp add: time_left_def Suc_diff_le)

fun outcome_clock :: "('s, 'a) outcome \<Rightarrow> duration" where
  "outcome_clock (Returned r (cb, e)) = clock e"
| "outcome_clock (Aborted (cb, e)) = clock e"

lemma retry_loop_time:
  fixes cfg
  defines "N \<equiv> unat (max_retries cfg)"
  assumes top: "max_retries cfg \<noteq> - 1" and timed: "well_timed operation"
    and "n \<le> N"
    and "retry_loop oc cfg contract backend op_name operation (of_nat n) (cb, e) = Some out"
  shows "outcome_clock out \<le> clock e + time_left cfg n N"
  using assms(4,5)
proof (induction "N - n" arbitrary: n cb e rule: less_induct)
  case less
  let ?T = "from_secs (operation_timeout_seconds cfg)"
  note facts = attempt_facts[OF less.prems(1)[unfolded N_def] top]
  note unfold = retry_loop.simps[of oc cfg contract backend op_name operation "of_nat n" "(cb, e)"]
  note bound = with_timeout_bound[OF timed, where d = ?T and e = e]
  note T = time_left_attempt[OF less.prems(1), of cfg]
  show ?case
  proof (cases "with_timeout ?T operation e")
    case (Panicked e1)
    with less.prems(2) bound T facts(2) show ?thesis by (auto simp: unfold)
  next
    case (Finished r e1)
    with bound have e1: "clock e1 \<le> clock e + ?T" by simp
    show ?thesis
    proof (cases r)
      case (Inr v)
      with Finished less.prems(2) e1 T facts(2) show ?thesis
        by (auto simp: unfold Let_def set_breaker_gauge_def)
    next
      case (Inl err)
      obtain panicked cb1 where f: "on_failure oc (clock e1) cb = (panicked, cb1)"
        by (cases "on_failure oc (clock e1) cb")
      define e3 where "e3 = emit (Inc RetriesTotal [contract, op_name, backend])
          (set_breaker_gauge contract backend cb1 e1)"
      have e3: "clock e3 = clock e1" by (simp add: e3_def set_breaker_gauge_def)
      let ?delay = "backoff_delay oc (from_millis (base_backoff_ms cfg)) (of_nat n + 1)"
      consider (stop) "panicked \<or> n = N \<or> ?delay = None"
        | (again) d where "\<not> panicked" "n \<noteq> N" "?delay = Some d"
        by auto
      then show ?thesis
      proof cases
        case stop
        with Finished Inl f less.prems(2) e1 T facts(2,3) show ?thesis
          by (auto simp: unfold Let_def set_breaker_gauge_def N_def split: if_splits option.splits)
      next
        case again
        then have n: "Suc n \<le> N" "N - Suc n < N - n" using less.prems(1) by simp_all
        have "retry_loop oc cfg contract backend op_name operation (of_nat (Suc n)) (cb1, sleep d e3)
            = Some out"
          using less.prems(2) Finished Inl f again facts(2,3)
          by (auto simp: unfold Let_def e3_def N_def add.commute split: if_splits)
        from less.hyps[OF n(2,1) this] have "outcome_clock out \<le> clock e1 + d + time_left cfg (Suc n) N"
          by (simp add: e3)
        moreover have "d = delay_of cfg (Suc n)"
          using again(3) by (intro backoff_delay_of) (simp add: add.commute)
        ultimately show ?thesis
          using time_left_step[of n N cfg] n(1) e1 by simp
      qed
    qed
  qed simp
qed

lemma execute_time:
  assumes "max_retries cfg \<noteq> - 1" and "well_timed operation"
    and "execute oc cfg contract backend op_name operation (cb, e) = Some out"
  shows "outcome_clock out \<le> clock e + max_call_time cfg"
proof (cases "can_execute (clock e) cb")
  case (Pair r cb1)
  show ?thesis
  proof (cases r)
    case (Inl err)
    with Pair assms(3) show ?thesis by (auto simp: execute_def)
  next
    case (Inr u)
    with Pair assms(3) have "retry_loop oc cfg contract backend op_name operation (of_nat 0) (cb1, e)
        = Some out" by (simp add: execute_def)
    from retry_loop_time[OF assms(1,2) _ this] show ?thesis
      by (simp add: max_call_time_def)
  qed
qed

end
