(* ===== verification/Health_Probe.thy ===== *)
theory Health_Probe
  imports Runtime
begin

text \<open>
  The probe behind every networked \<open>is_healthy\<close>: a cheap request raced against a timeout of
  its own. All three outcomes, an answer, a driver error and the timeout, are reported as a
  status inside \<open>Ok\<close>; the probe itself returns no error. The request is the driver's and a
  parameter. The latency is \<open>as_millis() as u64\<close>, the low 64 bits.
\<close>

definition latency_ms :: "duration \<Rightarrow> duration \<Rightarrow> nat" where
  "latency_ms start now = as_millis (now - start) mod 2 ^ 64"

text \<open>
  \<open>limit\<close> is the probe's own timeout and \<open>late\<close> its message. A deadline from outside that is
  shorter drops the whole probe.
\<close>

definition timed_probe ::
  "duration \<Rightarrow> string \<Rightarrow> string \<Rightarrow> string \<Rightarrow> ('s, 'p) future \<Rightarrow> ('s, health_status) future" where
  "timed_probe limit contract backend late request dl e =
     (let start = clock e;
          outer = (case dl of None \<Rightarrow> False | Some d \<Rightarrow> d < limit);
          budget = (if outer then the dl else limit)
      in case request (Some budget) e of
           Finished (Inr _) e1 \<Rightarrow>
             Finished (Inr (healthy contract backend (latency_ms start (clock e1)))) e1
         | Finished (Inl err) e1 \<Rightarrow>
             Finished (Inr (unhealthy contract backend (error_message err)
               (latency_ms start (clock e1)))) e1
         | Unfinished e1 \<Rightarrow>
             (if outer then Unfinished e1
              else Finished (Inr (unhealthy contract backend late
                (latency_ms start (clock e1)))) e1)
         | Panicked e1 \<Rightarrow> Panicked e1)"

definition redis_is_healthy ::
  "string \<Rightarrow> ('s, string) future \<Rightarrow> ('s, health_status) future" where
  "redis_is_healthy contract ping =
     timed_probe (from_secs 2) contract ''redis'' ''health check timed out (2s)'' ping"

definition postgres_is_healthy :: "('s, nat) future \<Rightarrow> ('s, health_status) future" where
  "postgres_is_healthy select_one =
     timed_probe (from_secs 3) ''relational'' ''postgres'' ''health check timed out (3s)'' select_one"

definition s3_is_healthy :: "('s, unit) future \<Rightarrow> ('s, health_status) future" where
  "s3_is_healthy head_bucket =
     timed_probe (from_secs 3) ''blob'' ''s3'' ''health check timed out (3s)'' head_bucket"

text \<open>The in-memory stores answer at once.\<close>

definition memory_is_healthy :: "string \<Rightarrow> duration \<Rightarrow> ('s, health_status) future" where
  "memory_is_healthy contract lat =
     atomic lat (\<lambda>s. Some (Inr (healthy contract ''memory'' 0), s))"

lemma serves_memory_health [serves_intros]:
  "serves ok \<alpha> lat (memory_is_healthy contract lat) (\<lambda>x. (healthy contract ''memory'' 0, x))"
  unfolding memory_is_healthy_def by (rule serves_atomic) auto

text \<open>
  With no deadline from outside, and a request that respects its own, a probe that does not
  panic reports a status within its limit, never an error: healthy exactly when the request
  was answered.
\<close>

lemma timed_probe_reports:
  assumes "well_timed request" and "\<And>e'. request (Some limit) e \<noteq> Panicked e'"
  shows "\<exists>status e'. timed_probe limit contract backend late request None e = Finished (Inr status) e'
    \<and> clock e' \<le> clock e + limit
    \<and> hs_contract status = contract \<and> hs_backend status = backend
    \<and> (hs_state status = Healthy \<longleftrightarrow> (\<exists>v e1. request (Some limit) e = Finished (Inr v) e1))
    \<and> hs_state status \<in> {Healthy, Unhealthy}"
proof -
  from assms(1) have "case request (Some limit) e of
      Finished r e' \<Rightarrow> clock e' \<le> clock e + limit
    | Unfinished e' \<Rightarrow> clock e' = clock e + limit
    | Panicked e' \<Rightarrow> True"
    unfolding well_timed_def by (auto split: poll.splits)
  with assms(2) show ?thesis
    by (cases "request (Some limit) e")
      (auto simp: timed_probe_def Let_def status_defs split: sum.splits)
qed

end
