(* ===== verification/Kv_Store.thy ===== *)
theory Kv_Store
  imports Executor Health_Probe
begin

text \<open>
  The key-value contract: the trait and its in-memory backend (\<^verbatim>\<open>rust/src/kv.rs\<close>), the Redis
  backend over a driver that is a parameter, and the instrumented and the resilient wrappers
  (\<^verbatim>\<open>rust/src/metrics.rs\<close>, \<^verbatim>\<open>rust/src/resilience.rs\<close>).
\<close>

text \<open>A \<open>dyn KvStore\<close> whose state has type \<open>'s\<close>.\<close>

record 's kv_store =
  kv_get :: "string \<Rightarrow> ('s, bytes option) future"
  kv_set :: "string \<Rightarrow> bytes \<Rightarrow> duration option \<Rightarrow> ('s, unit) future"
  kv_delete :: "string \<Rightarrow> ('s, unit) future"
  kv_exists :: "string \<Rightarrow> ('s, bool) future"
  kv_set_if_not_exists :: "string \<Rightarrow> bytes \<Rightarrow> duration option \<Rightarrow> ('s, bool) future"
  kv_is_healthy :: "('s, health_status) future"

section \<open>The in-memory store\<close>

type_synonym kv_data = "(string, bytes) hashmap"

definition mem_get :: "string \<Rightarrow> kv_data \<Rightarrow> (bytes option result \<times> kv_data) option" where
  "mem_get key data = Some (Inr (hm_get data key), data)"

definition mem_set ::
  "string \<Rightarrow> bytes \<Rightarrow> duration option \<Rightarrow> kv_data \<Rightarrow> (unit result \<times> kv_data) option" where
  "mem_set key val ttl data = Some (Inr (), hm_insert key val data)"

definition mem_delete :: "string \<Rightarrow> kv_data \<Rightarrow> (unit result \<times> kv_data) option" where
  "mem_delete key data = Some (Inr (), hm_remove key data)"

definition mem_exists :: "string \<Rightarrow> kv_data \<Rightarrow> (bool result \<times> kv_data) option" where
  "mem_exists key data = Some (Inr (hm_contains data key), data)"

definition mem_set_if_not_exists ::
  "string \<Rightarrow> bytes \<Rightarrow> duration option \<Rightarrow> kv_data \<Rightarrow> (bool result \<times> kv_data) option" where
  "mem_set_if_not_exists key val ttl data =
     (if hm_contains data key then Some (Inr False, data)
      else Some (Inr True, hm_insert key val data))"

definition memory_kv :: "duration \<Rightarrow> kv_data kv_store" where
  "memory_kv lat =
     \<lparr>kv_get = (\<lambda>key. atomic lat (mem_get key)),
      kv_set = (\<lambda>key val ttl. atomic lat (mem_set key val ttl)),
      kv_delete = (\<lambda>key. atomic lat (mem_delete key)),
      kv_exists = (\<lambda>key. atomic lat (mem_exists key)),
      kv_set_if_not_exists = (\<lambda>key val ttl. atomic lat (mem_set_if_not_exists key val ttl)),
      kv_is_healthy = memory_is_healthy ''kv'' lat\<rparr>"

section \<open>The Redis store\<close>

text \<open>
  The connection manager of the \<open>redis\<close> crate, as the calls this store makes on it: the typed
  commands of \<open>AsyncCommands\<close>, and commands built argument by argument whose reply is read as
  nothing, as an optional string or as a string.
\<close>

datatype redis_arg = ArgStr string | ArgBytes bytes | ArgInt nat

record 's redis_conn =
  rc_get :: "string \<Rightarrow> ('s, bytes option) future"
  rc_set :: "string \<Rightarrow> bytes \<Rightarrow> ('s, unit) future"
  rc_set_ex :: "string \<Rightarrow> bytes \<Rightarrow> nat \<Rightarrow> ('s, unit) future"
  rc_del :: "string \<Rightarrow> ('s, unit) future"
  rc_exists :: "string \<Rightarrow> ('s, bool) future"
  rc_set_nx :: "string \<Rightarrow> bytes \<Rightarrow> ('s, bool) future"
  rc_query_unit :: "string \<Rightarrow> redis_arg list \<Rightarrow> ('s, unit) future"
  rc_query_option :: "string \<Rightarrow> redis_arg list \<Rightarrow> ('s, string option) future"
  rc_query_string :: "string \<Rightarrow> redis_arg list \<Rightarrow> ('s, string) future"

text \<open>Apply a function to the value a future returns.\<close>

fun map_poll :: "('a \<Rightarrow> 'b) \<Rightarrow> ('s, 'a result) poll \<Rightarrow> ('s, 'b result) poll" where
  "map_poll f (Finished r e) = Finished (map_sum id f r) e"
| "map_poll f (Unfinished e) = Unfinished e"
| "map_poll f (Panicked e) = Panicked e"

definition redis_set :: "'s redis_conn \<Rightarrow> string \<Rightarrow> bytes \<Rightarrow> duration option \<Rightarrow> ('s, unit) future" where
  "redis_set conn key val ttl =
     (case ttl of
        Some t \<Rightarrow>
          let seconds = as_secs t in
          if seconds > 0 then rc_set_ex conn key val seconds
          else
            let millis = as_millis t mod 2 ^ 64 in
            rc_query_unit conn ''PSETEX'' [ArgStr key, ArgInt millis, ArgBytes val]
      | None \<Rightarrow> rc_set conn key val)"

definition redis_set_if_not_exists ::
  "'s redis_conn \<Rightarrow> string \<Rightarrow> bytes \<Rightarrow> duration option \<Rightarrow> ('s, bool) future" where
  "redis_set_if_not_exists conn key val ttl dl e =
     (case ttl of
        Some t \<Rightarrow>
          let seconds = as_secs t;
              cmd = [ArgStr key, ArgBytes val, ArgStr ''NX''];
              cmd' = (if seconds > 0 then cmd @ [ArgStr ''EX'', ArgInt seconds]
                      else cmd @ [ArgStr ''PX'', ArgInt (as_millis t mod 2 ^ 64)])
          in map_poll (\<lambda>res. res \<noteq> None) (rc_query_option conn ''SET'' cmd' dl e)
      | None \<Rightarrow> rc_set_nx conn key val dl e)"

definition redis_kv :: "'s redis_conn \<Rightarrow> 's kv_store" where
  "redis_kv conn =
     \<lparr>kv_get = rc_get conn,
      kv_set = redis_set conn,
      kv_delete = rc_del conn,
      kv_exists = rc_exists conn,
      kv_set_if_not_exists = redis_set_if_not_exists conn,
      kv_is_healthy = redis_is_healthy ''kv'' (rc_query_string conn ''PING'' [])\<rparr>"

text \<open>\<open>RedisKvStore::new\<close>: opening a client and connecting are calls of the driver.\<close>

definition redis_kv_new ::
  "(string \<Rightarrow> 'client result) \<Rightarrow> ('client \<Rightarrow> 's redis_conn result) \<Rightarrow> string \<Rightarrow> 's kv_store result" where
  "redis_kv_new client_open connection_manager url =
     (case client_open url of
        Inl err \<Rightarrow> Inl err
      | Inr client \<Rightarrow>
          (case connection_manager client of Inl err \<Rightarrow> Inl err | Inr conn \<Rightarrow> Inr (redis_kv conn)))"

section \<open>The instrumented store\<close>

definition instrumented_kv :: "'s kv_store \<Rightarrow> string \<Rightarrow> 's kv_store" where
  "instrumented_kv inner backend =
     \<lparr>kv_get = (\<lambda>key.
        instrumented KvOperationDuration ''kv'' ''get'' backend (kv_get inner key)),
      kv_set = (\<lambda>key val ttl.
        instrumented KvOperationDuration ''kv'' ''set'' backend (kv_set inner key val ttl)),
      kv_delete = (\<lambda>key.
        instrumented KvOperationDuration ''kv'' ''delete'' backend (kv_delete inner key)),
      kv_exists = (\<lambda>key.
        instrumented KvOperationDuration ''kv'' ''exists'' backend (kv_exists inner key)),
      kv_set_if_not_exists = (\<lambda>key val ttl.
        instrumented KvOperationDuration ''kv'' ''set_if_not_exists'' backend
          (kv_set_if_not_exists inner key val ttl)),
      kv_is_healthy = instrumented_health ''kv'' backend (kv_is_healthy inner)\<rparr>"

section \<open>The resilient store\<close>

text \<open>The methods of \<open>ResilientKvStore\<close>, on the inner store \<open>s\<close>.\<close>

definition resilient_kv_get ::
  "bool \<Rightarrow> resilience_config \<Rightarrow> string \<Rightarrow> 's kv_store \<Rightarrow> string \<Rightarrow> ('s, bytes option) guarded_call" where
  "resilient_kv_get oc cfg backend s key = execute oc cfg ''kv'' backend ''get'' (kv_get s key)"

definition resilient_kv_set ::
  "bool \<Rightarrow> resilience_config \<Rightarrow> string \<Rightarrow> 's kv_store \<Rightarrow> string \<Rightarrow> bytes \<Rightarrow> duration option
     \<Rightarrow> ('s, unit) guarded_call" where
  "resilient_kv_set oc cfg backend s key val ttl =
     execute oc cfg ''kv'' backend ''set'' (kv_set s key val ttl)"

definition resilient_kv_delete ::
  "bool \<Rightarrow> resilience_config \<Rightarrow> string \<Rightarrow> 's kv_store \<Rightarrow> string \<Rightarrow> ('s, unit) guarded_call" where
  "resilient_kv_delete oc cfg backend s key =
     execute oc cfg ''kv'' backend ''delete'' (kv_delete s key)"

definition resilient_kv_exists ::
  "bool \<Rightarrow> resilience_config \<Rightarrow> string \<Rightarrow> 's kv_store \<Rightarrow> string \<Rightarrow> ('s, bool) guarded_call" where
  "resilient_kv_exists oc cfg backend s key =
     execute oc cfg ''kv'' backend ''exists'' (kv_exists s key)"

definition resilient_kv_set_if_not_exists ::
  "bool \<Rightarrow> resilience_config \<Rightarrow> string \<Rightarrow> 's kv_store \<Rightarrow> string \<Rightarrow> bytes \<Rightarrow> duration option
     \<Rightarrow> ('s, bool) guarded_call" where
  "resilient_kv_set_if_not_exists oc cfg backend s key val ttl =
     execute oc cfg ''kv'' backend ''set_if_not_exists'' (kv_set_if_not_exists s key val ttl)"

lemmas resilient_kv_defs = resilient_kv_get_def resilient_kv_set_def resilient_kv_delete_def
  resilient_kv_exists_def resilient_kv_set_if_not_exists_def

section \<open>The contract\<close>

text \<open>The abstract store: a map from keys to values.\<close>

type_synonym kv_map = "string \<Rightarrow> bytes option"

definition spec_get :: "string \<Rightarrow> kv_map \<Rightarrow> bytes option \<times> kv_map" where
  "spec_get k m = (m k, m)"

definition spec_set :: "string \<Rightarrow> bytes \<Rightarrow> kv_map \<Rightarrow> unit \<times> kv_map" where
  "spec_set k v m = ((), m(k \<mapsto> v))"

definition spec_delete :: "string \<Rightarrow> kv_map \<Rightarrow> unit \<times> kv_map" where
  "spec_delete k m = ((), m(k := None))"

definition spec_exists :: "string \<Rightarrow> kv_map \<Rightarrow> bool \<times> kv_map" where
  "spec_exists k m = (m k \<noteq> None, m)"

definition spec_set_if_not_exists :: "string \<Rightarrow> bytes \<Rightarrow> kv_map \<Rightarrow> bool \<times> kv_map" where
  "spec_set_if_not_exists k v m = (if m k \<noteq> None then (False, m) else (True, m(k \<mapsto> v)))"

lemmas kv_spec_defs = spec_get_def spec_set_def spec_delete_def spec_exists_def
  spec_set_if_not_exists_def

text \<open>What a backend promises, on values stored without a time to live.\<close>

locale kv_contract =
  fixes s :: "'s kv_store" and ok :: "'s \<Rightarrow> bool" and \<alpha> :: "'s \<Rightarrow> kv_map" and L :: duration
  assumes get_serves: "serves ok \<alpha> L (kv_get s k) (spec_get k)"
    and set_serves: "serves ok \<alpha> L (kv_set s k v None) (spec_set k v)"
    and delete_serves: "serves ok \<alpha> L (kv_delete s k) (spec_delete k)"
    and exists_serves: "serves ok \<alpha> L (kv_exists s k) (spec_exists k)"
    and set_if_not_exists_serves:
      "serves ok \<alpha> L (kv_set_if_not_exists s k v None) (spec_set_if_not_exists k v)"
begin

lemmas contract_serves =
  get_serves set_serves delete_serves exists_serves set_if_not_exists_serves

text \<open>Instrumentation keeps the contract.\<close>

lemma instrumented_contract: "kv_contract (instrumented_kv s backend) ok \<alpha> L"
  by unfold_locales (simp_all add: instrumented_kv_def serves_instrumented contract_serves)

end

text \<open>The contract with a timeout that leaves the backend enough time.\<close>

locale kv_guarded = kv_contract +
  fixes oc :: bool and cfg :: resilience_config and backend :: string
  assumes enough_time: "L \<le> from_secs (operation_timeout_seconds cfg)"
begin

lemma guarded_serves:
  "serves_call ok \<alpha> (resilient_kv_get oc cfg backend s k) (spec_get k)"
  "serves_call ok \<alpha> (resilient_kv_set oc cfg backend s k v None) (spec_set k v)"
  "serves_call ok \<alpha> (resilient_kv_delete oc cfg backend s k) (spec_delete k)"
  "serves_call ok \<alpha> (resilient_kv_exists oc cfg backend s k) (spec_exists k)"
  "serves_call ok \<alpha> (resilient_kv_set_if_not_exists oc cfg backend s k v None)
     (spec_set_if_not_exists k v)"
  unfolding resilient_kv_defs
  using contract_serves by (blast intro: serves_execute enough_time)+

end

text \<open>Client calls on the resilient store and their meaning on maps.\<close>

datatype kv_call = KvGet string | KvSet string bytes | KvDelete string | KvExists string
  | KvSetIfNotExists string bytes

datatype kv_reply = KvValue "bytes option" | KvDone | KvFlag bool

fun kv_client ::
  "bool \<Rightarrow> resilience_config \<Rightarrow> string \<Rightarrow> 's kv_store \<Rightarrow> kv_call \<Rightarrow> ('s, kv_reply) guarded_call" where
  "kv_client oc cfg b s (KvGet k) = map_call KvValue (resilient_kv_get oc cfg b s k)"
| "kv_client oc cfg b s (KvSet k v) = map_call (\<lambda>_. KvDone) (resilient_kv_set oc cfg b s k v None)"
| "kv_client oc cfg b s (KvDelete k) = map_call (\<lambda>_. KvDone) (resilient_kv_delete oc cfg b s k)"
| "kv_client oc cfg b s (KvExists k) = map_call KvFlag (resilient_kv_exists oc cfg b s k)"
| "kv_client oc cfg b s (KvSetIfNotExists k v) =
     map_call KvFlag (resilient_kv_set_if_not_exists oc cfg b s k v None)"

fun kv_meaning :: "kv_call \<Rightarrow> kv_map \<Rightarrow> kv_reply \<times> kv_map" where
  "kv_meaning (KvGet k) m = (KvValue (m k), m)"
| "kv_meaning (KvSet k v) m = (KvDone, m(k \<mapsto> v))"
| "kv_meaning (KvDelete k) m = (KvDone, m(k := None))"
| "kv_meaning (KvExists k) m = (KvFlag (m k \<noteq> None), m)"
| "kv_meaning (KvSetIfNotExists k v) m =
     (if m k \<noteq> None then (KvFlag False, m) else (KvFlag True, m(k \<mapsto> v)))"

context kv_guarded
begin

lemma client_serves: "serves_call ok \<alpha> (kv_client oc cfg backend s c) (kv_meaning c)"
proof -
  have "serves_call ok \<alpha> (kv_client oc cfg backend s c) (\<lambda>m. kv_meaning c m)"
    using serves_map_call[OF guarded_serves(1)] serves_map_call[OF guarded_serves(2)]
      serves_map_call[OF guarded_serves(3)] serves_map_call[OF guarded_serves(4)]
      serves_map_call[OF guarded_serves(5)]
    by (cases c) (simp_all add: kv_spec_defs if_distrib[of "apfst _"] cong: if_cong)
  then show ?thesis .
qed

lemma client_run:
  assumes "ok (store e)" and "cb_state cb \<noteq> Open"
  shows "\<exists>cb' e'. run_calls (kv_client oc cfg backend s) cs (cb, e)
        = Some (map Inr (fst (run_spec kv_meaning cs (\<alpha> (store e)))), (cb', e'))
      \<and> \<alpha> (store e') = snd (run_spec kv_meaning cs (\<alpha> (store e)))
      \<and> ok (store e') \<and> cb_state cb' \<noteq> Open"
  using client_serves assms by (rule run_calls_serve)

end

section \<open>The in-memory store keeps the contract\<close>

lemmas mem_kv_defs = mem_get_def mem_set_def mem_delete_def mem_exists_def
  mem_set_if_not_exists_def

lemma memory_kv_serves:
  "serves hm_ok hm_get lat (kv_get (memory_kv lat) k) (spec_get k)"
  "serves hm_ok hm_get lat (kv_set (memory_kv lat) k v ttl) (spec_set k v)"
  "serves hm_ok hm_get lat (kv_delete (memory_kv lat) k) (spec_delete k)"
  "serves hm_ok hm_get lat (kv_exists (memory_kv lat) k) (spec_exists k)"
  "serves hm_ok hm_get lat (kv_set_if_not_exists (memory_kv lat) k v ttl) (spec_set_if_not_exists k v)"
  unfolding memory_kv_def
  by (simp_all, (rule serves_atomic,
      simp add: mem_kv_defs kv_spec_defs hm_contains_def hm_ok_insert hm_ok_remove)+)

interpretation mem_kv: kv_contract "memory_kv lat" hm_ok hm_get lat
  by unfold_locales (rule memory_kv_serves)+

interpretation instrumented_mem_kv:
  kv_contract "instrumented_kv (memory_kv lat) backend" hm_ok hm_get lat
  by (rule mem_kv.instrumented_contract)

interpretation default_mem_kv:
  kv_guarded "instrumented_kv (memory_kv 1000000) backend" hm_ok hm_get 1000000 oc default_resilience backend
  for oc backend
  by unfold_locales (simp add: default_operation_timeout)

end
