(* ===== verification/Redis_Expiry.thy ===== *)
theory Redis_Expiry
  imports Kv_Store
begin

text \<open>
  Times to live on the Redis backend of \<^verbatim>\<open>rust/src/kv.rs\<close>. A server that expires keys is seen
  as a timeline: what each key holds at each instant as long as nobody writes to it. The commands
  \<open>RedisKvStore\<close> sends are given their documented effect on the timeline, at some instant between
  the start and the end of the call, and the operations of the store, bare, instrumented and
  resilient, are shown to have theirs.
\<close>

type_synonym timeline = "duration \<Rightarrow> kv_map"

definition written :: "string \<Rightarrow> bytes \<Rightarrow> duration option \<Rightarrow> timeline \<Rightarrow> timeline" where
  "written k v expiry line =
     (\<lambda>t. (line t)(k := (case expiry of
        None \<Rightarrow> Some v
      | Some x \<Rightarrow> if t < x then Some v else None)))"

section \<open>Operations on a timeline\<close>

text \<open>Each takes the instant at which it happens; a lifetime counts from there.\<close>

definition tl_get :: "string \<Rightarrow> duration \<Rightarrow> timeline \<Rightarrow> bytes option result \<times> timeline" where
  "tl_get k t line = (Inr (line t k), line)"

definition tl_exists :: "string \<Rightarrow> duration \<Rightarrow> timeline \<Rightarrow> bool result \<times> timeline" where
  "tl_exists k t line = (Inr (line t k \<noteq> None), line)"

definition tl_delete :: "string \<Rightarrow> duration \<Rightarrow> timeline \<Rightarrow> unit result \<times> timeline" where
  "tl_delete k t line = (Inr (), \<lambda>t'. (line t')(k := None))"

definition tl_set ::
  "string \<Rightarrow> bytes \<Rightarrow> duration option \<Rightarrow> duration \<Rightarrow> timeline \<Rightarrow> unit result \<times> timeline" where
  "tl_set k v life t line = (Inr (), written k v (map_option ((+) t) life) line)"

definition tl_set_new ::
  "string \<Rightarrow> bytes \<Rightarrow> duration option \<Rightarrow> duration \<Rightarrow> timeline \<Rightarrow> bool result \<times> timeline" where
  "tl_set_new k v life t line =
     (if line t k = None then (Inr True, written k v (map_option ((+) t) life) line)
      else (Inr False, line))"

definition tl_refuse :: "store_error \<Rightarrow> duration \<Rightarrow> timeline \<Rightarrow> 'a result \<times> timeline" where
  "tl_refuse err t line = (Inl err, line)"

lemmas tl_defs = tl_get_def tl_exists_def tl_delete_def tl_set_def tl_set_new_def tl_refuse_def

text \<open>A future that has the effect \<open>f\<close> on the timeline \<open>c\<close> of its store, in at most \<open>L\<close>.\<close>

definition acts ::
  "('s \<Rightarrow> bool) \<Rightarrow> ('s \<Rightarrow> timeline) \<Rightarrow> duration
     \<Rightarrow> ('s, 'a) future \<Rightarrow> (duration \<Rightarrow> timeline \<Rightarrow> 'a result \<times> timeline) \<Rightarrow> bool" where
  "acts ok c L fut f \<longleftrightarrow>
     (\<forall>dl e. ok (store e) \<longrightarrow> in_time L dl \<longrightarrow>
        (\<exists>t e'. fut dl e = Finished (fst (f t (c (store e)))) e' \<and> ok (store e')
           \<and> (\<forall>t'\<ge>t. c (store e') t' = snd (f t (c (store e))) t')
           \<and> clock e \<le> t \<and> t \<le> clock e' \<and> clock e' \<le> clock e + L))"

lemma actsE:
  assumes "acts ok c L fut f" and "ok (store e)" and "in_time L dl"
  obtains t e' where "fut dl e = Finished (fst (f t (c (store e)))) e'" and "ok (store e')"
    and "\<forall>t'\<ge>t. c (store e') t' = snd (f t (c (store e))) t'"
    and "clock e \<le> t" and "t \<le> clock e'" and "clock e' \<le> clock e + L"
  using assms unfolding acts_def by blast

lemma acts_instrumented:
  assumes "acts ok c L fut f"
  shows "acts ok c L (instrumented fam contract op backend fut) f"
  unfolding acts_def
proof (intro allI impI)
  fix dl and e :: "'a env"
  assume "ok (store e)" and "in_time L dl"
  with assms obtain t e1 where run: "fut dl e = Finished (fst (f t (c (store e)))) e1" and
    e1: "ok (store e1)" "\<forall>t'\<ge>t. c (store e1) t' = snd (f t (c (store e))) t'"
      "clock e \<le> t" "t \<le> clock e1" "clock e1 \<le> clock e + L"
    by (rule actsE)
  from instrumented_events[of fut dl e, OF run] obtain e' where
    "instrumented fam contract op backend fut dl e = Finished (fst (f t (c (store e)))) e'"
    "store e' = store e1" "clock e' = clock e1" by blast
  with e1 show "\<exists>t e'. instrumented fam contract op backend fut dl e = Finished (fst (f t (c (store e)))) e'
      \<and> ok (store e') \<and> (\<forall>t'\<ge>t. c (store e') t' = snd (f t (c (store e))) t')
      \<and> clock e \<le> t \<and> t \<le> clock e' \<and> clock e' \<le> clock e + L"
    by (intro exI[of _ t] exI[of _ e']) simp
qed

text \<open>The executor returns what a first attempt that has no error returns.\<close>

lemma acts_execute:
  assumes "acts ok c L fut f" and "L \<le> from_secs (operation_timeout_seconds cfg)"
    and "\<And>t line. \<exists>v. fst (f t line) = Inr v" and "ok (store e)" and "cb_state cb \<noteq> Open"
  shows "\<exists>t cb' e'. execute oc cfg contract backend op_name fut (cb, e)
        = Some (Returned (fst (f t (c (store e)))) (cb', e'))
      \<and> cb_state cb' \<noteq> Open \<and> ok (store e')
      \<and> (\<forall>t'\<ge>t. c (store e') t' = snd (f t (c (store e))) t')
      \<and> clock e \<le> t \<and> t \<le> clock e' \<and> clock e' \<le> clock e + L"
proof -
  let ?d = "from_secs (operation_timeout_seconds cfg)"
  have "in_time L (Some ?d)" using assms(2) by (simp add: in_time_def)
  with assms(1,4) obtain t e1 where run: "fut (Some ?d) e = Finished (fst (f t (c (store e)))) e1" and
    e1: "ok (store e1)" "\<forall>t'\<ge>t. c (store e1) t' = snd (f t (c (store e))) t'"
      "clock e \<le> t" "t \<le> clock e1" "clock e1 \<le> clock e + L"
    by (rule actsE)
  obtain v where v: "fst (f t (c (store e))) = Inr v" using assms(3) by blast
  have "execute oc cfg contract backend op_name fut (cb, e)
      = Some (Returned (Inr v) (on_success cb, set_breaker_gauge contract backend (on_success cb) e1))"
    using assms(5) run v by (simp add: execute_def retry_loop_success with_timeout_def)
  with e1 v show ?thesis
    by (intro exI[of _ t] exI[of _ "on_success cb"]
        exI[of _ "set_breaker_gauge contract backend (on_success cb) e1"])
      (simp add: set_breaker_gauge_def)
qed

section \<open>The commands of the store\<close>

text \<open>
  Documented behaviour of the server: \<open>SETEX\<close>, \<open>PSETEX\<close> and \<open>SET\<close> with \<open>EX\<close> or \<open>PX\<close> give the
  key a lifetime in seconds or milliseconds and refuse zero, \<open>NX\<close> sets only a key that is absent at
  that instant, \<open>SET\<close> without an option drops an older lifetime. Lifetimes up to \<open>2 ^ 50\<close> seconds
  are in range. The server's clock runs with the one of the environment.
\<close>

definition reply_ok :: "bool \<Rightarrow> string option" where
  "reply_ok done = (if done then Some ''OK'' else None)"

definition redis_expires ::
  "'s redis_conn \<Rightarrow> ('s \<Rightarrow> bool) \<Rightarrow> ('s \<Rightarrow> timeline) \<Rightarrow> duration \<Rightarrow> store_error \<Rightarrow> bool" where
  "redis_expires conn ok c L invalid \<longleftrightarrow>
     (\<forall>k v.
        acts ok c L (rc_get conn k) (tl_get k)
      \<and> acts ok c L (rc_set conn k v) (tl_set k v None)
      \<and> acts ok c L (rc_del conn k) (tl_delete k)
      \<and> acts ok c L (rc_exists conn k) (tl_exists k)
      \<and> acts ok c L (rc_set_nx conn k v) (tl_set_new k v None)
      \<and> (\<forall>n. 0 < n \<and> n \<le> 2 ^ 50 \<longrightarrow>
           acts ok c L (rc_set_ex conn k v n) (tl_set k v (Some (n * 1000000000)))
         \<and> acts ok c L (rc_query_option conn ''SET'' [ArgStr k, ArgBytes v, ArgStr ''NX'', ArgStr ''EX'', ArgInt n])
             (\<lambda>t line. apfst (map_sum id reply_ok) (tl_set_new k v (Some (n * 1000000000)) t line))
         \<and> acts ok c L (rc_query_unit conn ''PSETEX'' [ArgStr k, ArgInt n, ArgBytes v])
             (tl_set k v (Some (n * 1000000)))
         \<and> acts ok c L (rc_query_option conn ''SET'' [ArgStr k, ArgBytes v, ArgStr ''NX'', ArgStr ''PX'', ArgInt n])
             (\<lambda>t line. apfst (map_sum id reply_ok) (tl_set_new k v (Some (n * 1000000)) t line)))
      \<and> acts ok c L (rc_query_unit conn ''PSETEX'' [ArgStr k, ArgInt 0, ArgBytes v]) (tl_refuse invalid)
      \<and> acts ok c L (rc_query_option conn ''SET'' [ArgStr k, ArgBytes v, ArgStr ''NX'', ArgStr ''PX'', ArgInt 0])
          (tl_refuse invalid))"

lemma redis_expiresD:
  assumes "redis_expires conn ok c L invalid"
  shows "acts ok c L (rc_get conn k) (tl_get k)"
    and "acts ok c L (rc_set conn k v) (tl_set k v None)"
    and "acts ok c L (rc_del conn k) (tl_delete k)"
    and "acts ok c L (rc_exists conn k) (tl_exists k)"
    and "acts ok c L (rc_set_nx conn k v) (tl_set_new k v None)"
    and "0 < n \<Longrightarrow> n \<le> 2 ^ 50 \<Longrightarrow>
      acts ok c L (rc_set_ex conn k v n) (tl_set k v (Some (n * 1000000000)))"
    and "0 < n \<Longrightarrow> n \<le> 2 ^ 50 \<Longrightarrow>
      acts ok c L (rc_query_option conn ''SET'' [ArgStr k, ArgBytes v, ArgStr ''NX'', ArgStr ''EX'', ArgInt n])
        (\<lambda>t line. apfst (map_sum id reply_ok) (tl_set_new k v (Some (n * 1000000000)) t line))"
    and "0 < n \<Longrightarrow> n \<le> 2 ^ 50 \<Longrightarrow>
      acts ok c L (rc_query_unit conn ''PSETEX'' [ArgStr k, ArgInt n, ArgBytes v])
        (tl_set k v (Some (n * 1000000)))"
    and "0 < n \<Longrightarrow> n \<le> 2 ^ 50 \<Longrightarrow>
      acts ok c L (rc_query_option conn ''SET'' [ArgStr k, ArgBytes v, ArgStr ''NX'', ArgStr ''PX'', ArgInt n])
        (\<lambda>t line. apfst (map_sum id reply_ok) (tl_set_new k v (Some (n * 1000000)) t line))"
    and "acts ok c L (rc_query_unit conn ''PSETEX'' [ArgStr k, ArgInt 0, ArgBytes v]) (tl_refuse invalid)"
    and "acts ok c L (rc_query_option conn ''SET'' [ArgStr k, ArgBytes v, ArgStr ''NX'', ArgStr ''PX'', ArgInt 0])
      (tl_refuse invalid)"
  using assms unfolding redis_expires_def by blast+

text \<open>Reading the reply of a future.\<close>

lemma acts_map_poll:
  assumes "acts ok c L fut (\<lambda>t line. apfst (map_sum id g) (f t line))" and "\<And>b. h (g b) = b"
  shows "acts ok c L (\<lambda>dl e. map_poll h (fut dl e)) f"
  unfolding acts_def
proof (intro allI impI)
  fix dl and e :: "'a env"
  assume "ok (store e)" and "in_time L dl"
  with assms(1) obtain t e' where
    run: "fut dl e = Finished (fst (apfst (map_sum id g) (f t (c (store e))))) e'" and
    e': "ok (store e')" "\<forall>t'\<ge>t. c (store e') t' = snd (apfst (map_sum id g) (f t (c (store e)))) t'"
      "clock e \<le> t" "t \<le> clock e'" "clock e' \<le> clock e + L"
    by (rule actsE)
  have "map_sum id h (map_sum id g r) = r" for r
    using assms(2) by (cases r) auto
  with run e' show "\<exists>t e'. map_poll h (fut dl e) = Finished (fst (f t (c (store e)))) e' \<and> ok (store e')
      \<and> (\<forall>t'\<ge>t. c (store e') t' = snd (f t (c (store e))) t')
      \<and> clock e \<le> t \<and> t \<le> clock e' \<and> clock e' \<le> clock e + L"
    by (intro exI[of _ t] exI[of _ e']) simp
qed

section \<open>The lifetime the store asks for\<close>

definition sent_lifetime :: "duration \<Rightarrow> duration" where
  "sent_lifetime ttl =
     (if 0 < as_secs ttl then as_secs ttl * 1000000000 else as_millis ttl * 1000000)"

definition ttl_in_range :: "duration option \<Rightarrow> bool" where
  "ttl_in_range ttl = (case ttl of None \<Rightarrow> True | Some d \<Rightarrow> 1000000 \<le> d \<and> d \<le> 2 ^ 50 * 1000000000)"

lemma sent_lifetime_bounds:
  "sent_lifetime ttl \<le> ttl" "ttl < sent_lifetime ttl + 1000000000"
  "1000000 \<le> ttl \<Longrightarrow> 1000000 \<le> sent_lifetime ttl"
proof -
  have secs: "as_secs ttl * 1000000000 \<le> ttl \<and> ttl < as_secs ttl * 1000000000 + 1000000000"
    using div_mult_mod_eq[of ttl 1000000000] mod_less_divisor[of 1000000000 ttl]
    unfolding as_secs_def by linarith
  have millis: "as_millis ttl * 1000000 \<le> ttl \<and> ttl < as_millis ttl * 1000000 + 1000000"
    using div_mult_mod_eq[of ttl 1000000] mod_less_divisor[of 1000000 ttl]
    unfolding as_millis_def by linarith
  show "sent_lifetime ttl \<le> ttl" "ttl < sent_lifetime ttl + 1000000000"
    "1000000 \<le> ttl \<Longrightarrow> 1000000 \<le> sent_lifetime ttl"
    using secs millis unfolding sent_lifetime_def by auto
qed

lemma ttl_in_range_secs: "ttl_in_range (Some d) \<Longrightarrow> as_secs d \<le> 2 ^ 50"
  using div_le_mono[of d "2 ^ 50 * 1000000000" 1000000000] by (simp add: ttl_in_range_def as_secs_def)

lemma ttl_in_range_millis:
  "ttl_in_range (Some d) \<Longrightarrow> as_secs d = 0 \<Longrightarrow> 0 < as_millis d \<and> as_millis d < 1000"
  using div_le_mono[of 1000000 d 1000000]
  by (auto simp: ttl_in_range_def as_secs_def as_millis_def div_eq_0_iff less_mult_imp_div_less)

lemma redis_set_acts:
  assumes "redis_expires conn ok c L invalid" and "ttl_in_range ttl"
  shows "acts ok c L (redis_set conn k v ttl) (tl_set k v (map_option sent_lifetime ttl))"
proof (cases ttl)
  case None
  then show ?thesis by (simp add: redis_set_def redis_expiresD(2)[OF assms(1)])
next
  case (Some d)
  show ?thesis
  proof (cases "0 < as_secs d")
    case True
    have "as_secs d \<le> 2 ^ 50" using assms(2) unfolding Some by (rule ttl_in_range_secs)
    with True show ?thesis
      using redis_expiresD(6)[OF assms(1) True, of k v]
      by (simp add: Some redis_set_def sent_lifetime_def Let_def)
  next
    case False
    have "0 < as_millis d" "as_millis d < 1000"
      using ttl_in_range_millis assms(2) False unfolding Some by auto
    with False show ?thesis
      using redis_expiresD(8)[OF assms(1), of "as_millis d" k v]
      by (simp add: Some redis_set_def sent_lifetime_def Let_def)
  qed
qed

lemma redis_set_if_not_exists_acts:
  assumes "redis_expires conn ok c L invalid" and "ttl_in_range ttl"
  shows "acts ok c L (redis_set_if_not_exists conn k v ttl) (tl_set_new k v (map_option sent_lifetime ttl))"
proof (cases ttl)
  case None
  then have "redis_set_if_not_exists conn k v ttl = rc_set_nx conn k v"
    by (simp add: fun_eq_iff redis_set_if_not_exists_def)
  then show ?thesis by (simp add: None redis_expiresD(5)[OF assms(1)])
next
  case (Some d)
  have reads: "(reply_ok b \<noteq> None) = b" for b by (simp add: reply_ok_def)
  note read_reply = acts_map_poll[where g = reply_ok and h = "\<lambda>res. res \<noteq> None", OF _ reads]
  show ?thesis
  proof (cases "0 < as_secs d")
    case True
    have "as_secs d \<le> 2 ^ 50" using assms(2) unfolding Some by (rule ttl_in_range_secs)
    from read_reply[OF redis_expiresD(7)[OF assms(1) True this, of k v]] True
    show ?thesis
      by (simp add: Some redis_set_if_not_exists_def[abs_def] sent_lifetime_def Let_def)
  next
    case False
    have "0 < as_millis d" "as_millis d < 1000"
      using ttl_in_range_millis assms(2) False unfolding Some by auto
    with read_reply[OF redis_expiresD(9)[OF assms(1), of "as_millis d" k v]] False
    show ?thesis
      by (simp add: Some redis_set_if_not_exists_def[abs_def] sent_lifetime_def Let_def)
  qed
qed

text \<open>A time to live below a millisecond is sent as zero and refused.\<close>

lemma redis_set_refused:
  assumes "redis_expires conn ok c L invalid" and "ttl < 1000000"
  shows "acts ok c L (redis_set conn k v (Some ttl)) (tl_refuse invalid)"
proof -
  have "as_secs ttl = 0" "as_millis ttl = 0" using assms(2) by (simp_all add: as_secs_def as_millis_def)
  then show ?thesis
    using redis_expiresD(10)[OF assms(1)] by (simp add: redis_set_def Let_def)
qed

section \<open>The resilient store\<close>

text \<open>What a call answers, when it returns.\<close>

definition reply_of :: "('s, 'a) outcome option \<Rightarrow> 'a result option" where
  "reply_of out = (case out of Some (Returned r st) \<Rightarrow> Some r | _ \<Rightarrow> None)"

lemma redis_stack_calls:
  fixes conn :: "'s redis_conn"
  assumes "redis_expires conn ok c L invalid"
    and "L \<le> from_secs (operation_timeout_seconds cfg)" and "ok (store e)" and "cb_state cb \<noteq> Open"
  shows "\<exists>t. reply_of (resilient_kv_get oc cfg backend (instrumented_kv (redis_kv conn) backend) k (cb, e))
        = Some (Inr (c (store e) t k)) \<and> clock e \<le> t \<and> t \<le> clock e + L"
    and "ttl_in_range ttl \<Longrightarrow>
      \<exists>t cb' e'. resilient_kv_set_if_not_exists oc cfg backend (instrumented_kv (redis_kv conn) backend)
          k v ttl (cb, e) = Some (Returned (Inr (c (store e) t k = None)) (cb', e'))
        \<and> cb_state cb' \<noteq> Open \<and> ok (store e') \<and> clock e \<le> t \<and> t \<le> clock e' \<and> clock e' \<le> clock e + L
        \<and> (\<forall>t'\<ge>t. c (store e') t' = snd (tl_set_new k v (map_option sent_lifetime ttl) t (c (store e))) t')"
proof -
  have "acts ok c L (kv_get (instrumented_kv (redis_kv conn) backend) k) (tl_get k)"
    by (simp add: instrumented_kv_def redis_kv_def acts_instrumented redis_expiresD(1)[OF assms(1)])
  from acts_execute[OF this assms(2) _ assms(3,4), of oc "''kv''" backend "''get''"]
  show "\<exists>t. reply_of (resilient_kv_get oc cfg backend (instrumented_kv (redis_kv conn) backend) k (cb, e))
        = Some (Inr (c (store e) t k)) \<and> clock e \<le> t \<and> t \<le> clock e + L"
    by (auto simp: resilient_kv_get_def tl_get_def reply_of_def)
  assume "ttl_in_range ttl"
  from redis_set_if_not_exists_acts[OF assms(1) this]
  have set: "acts ok c L (kv_set_if_not_exists (instrumented_kv (redis_kv conn) backend) k v ttl)
      (tl_set_new k v (map_option sent_lifetime ttl))"
    by (simp add: instrumented_kv_def redis_kv_def acts_instrumented)
  have v: "fst (tl_set_new k v (map_option sent_lifetime ttl) t line) = Inr (line t k = None)" for t line
    by (simp add: tl_set_new_def)
  then have "\<exists>w. fst (tl_set_new k v (map_option sent_lifetime ttl) t line) = Inr w" for t line by blast
  from acts_execute[OF set assms(2) this assms(3,4), of oc "''kv''" backend "''set_if_not_exists''"]
  show "\<exists>t cb' e'. resilient_kv_set_if_not_exists oc cfg backend
      (instrumented_kv (redis_kv conn) backend) k v ttl (cb, e)
        = Some (Returned (Inr (c (store e) t k = None)) (cb', e'))
      \<and> cb_state cb' \<noteq> Open \<and> ok (store e') \<and> clock e \<le> t \<and> t \<le> clock e' \<and> clock e' \<le> clock e + L
      \<and> (\<forall>t'\<ge>t. c (store e') t' = snd (tl_set_new k v (map_option sent_lifetime ttl) t (c (store e))) t')"
    unfolding resilient_kv_set_if_not_exists_def v by blast
qed

text \<open>What the key holds after a lock on it was taken.\<close>

lemma redis_lock_taken:
  assumes "redis_expires conn ok c L invalid"
    and "L \<le> from_secs (operation_timeout_seconds cfg)" and "ok (store e)" and "cb_state cb \<noteq> Open"
    and free: "\<forall>t\<ge>clock e. c (store e) t k = None" and "ttl_in_range (Some ttl)"
  obtains cb1 e1 where
    "resilient_kv_set_if_not_exists oc cfg backend (instrumented_kv (redis_kv conn) backend)
       k v (Some ttl) (cb, e) = Some (Returned (Inr True) (cb1, e1))"
    "ok (store e1)" "clock e \<le> clock e1" "clock e1 \<le> clock e + L"
    "\<forall>t. clock e1 \<le> t \<and> t < clock e + sent_lifetime ttl \<longrightarrow> c (store e1) t k = Some v"
    "\<forall>t. clock e1 + sent_lifetime ttl \<le> t \<longrightarrow> c (store e1) t k = None"
proof -
  from redis_stack_calls(2)[OF assms(1-4,6), of oc backend k v] obtain t cb1 e1 where
    r: "resilient_kv_set_if_not_exists oc cfg backend (instrumented_kv (redis_kv conn) backend)
       k v (Some ttl) (cb, e) = Some (Returned (Inr (c (store e) t k = None)) (cb1, e1))" and
    e1: "ok (store e1)" "clock e \<le> t" "t \<le> clock e1" "clock e1 \<le> clock e + L" and
    after: "\<And>t'. t \<le> t' \<Longrightarrow>
      c (store e1) t' = snd (tl_set_new k v (Some (sent_lifetime ttl)) t (c (store e))) t'"
    by auto
  have none: "c (store e) t k = None" using free e1(2) by blast
  have held: "c (store e1) t' k = (if t' < t + sent_lifetime ttl then Some v else None)" if "t \<le> t'" for t'
    using after[OF that] by (simp add: tl_set_new_def none written_def)
  show thesis
    by (rule that[of cb1 e1]) (use r none e1 held in auto)
qed

text \<open>What callers are told of a key that holds the same throughout their call.\<close>

lemma redis_steady_replies:
  assumes "redis_expires conn ok c L invalid"
    and "L \<le> from_secs (operation_timeout_seconds cfg)" and "ok (store e)" and "cb_state cb \<noteq> Open"
    and "ttl_in_range ttl" and steady: "\<forall>t. clock e \<le> t \<and> t \<le> clock e + L \<longrightarrow> c (store e) t k = x"
  shows "reply_of (resilient_kv_set_if_not_exists oc cfg backend
        (instrumented_kv (redis_kv conn) backend) k w ttl (cb, e)) = Some (Inr (x = None))"
    and "reply_of (resilient_kv_get oc cfg backend (instrumented_kv (redis_kv conn) backend) k (cb, e))
      = Some (Inr x)"
  using redis_stack_calls(2)[OF assms(1-5), of oc backend k w]
    redis_stack_calls(1)[OF assms(1-4), of oc backend k] steady
  by (auto simp: reply_of_def)

end
