(* ===== verification/Ordered_Map.thy ===== *)
theory Ordered_Map
  imports Store_Prelude
begin

text \<open>
  The contents of a \<open>BTreeMap\<close>: its entries in the order of their keys. The operations the
  source calls are lookup, insert (with or without the entry interface), remove, the key
  iterator and \<open>range\<close> over an inclusive range, which panics when the start is above the
  end (here \<open>None\<close>).
\<close>

type_synonym ('k, 'v) btree = "('k \<times> 'v) list"

definition bt_ok :: "('k::linorder, 'v) btree \<Rightarrow> bool" where
  "bt_ok t = sorted_wrt (<) (map fst t)"

abbreviation bt_get :: "('k, 'v) btree \<Rightarrow> 'k \<Rightarrow> 'v option" where
  "bt_get \<equiv> map_of"

definition bt_insert :: "'k::linorder \<Rightarrow> 'v \<Rightarrow> ('k, 'v) btree \<Rightarrow> ('k, 'v) btree" where
  "bt_insert k v t =
     takeWhile (\<lambda>e. fst e < k) t @ (k, v) # dropWhile (\<lambda>e. fst e \<le> k) t"

definition bt_remove :: "'k::linorder \<Rightarrow> ('k, 'v) btree \<Rightarrow> ('k, 'v) btree" where
  "bt_remove k t = filter (\<lambda>e. fst e \<noteq> k) t"

definition bt_keys :: "('k, 'v) btree \<Rightarrow> 'k list" where
  "bt_keys t = map fst t"

definition bt_range :: "'k::linorder \<Rightarrow> 'k \<Rightarrow> ('k, 'v) btree \<Rightarrow> ('k, 'v) btree option" where
  "bt_range lo hi t =
     (if hi < lo then None else Some (filter (\<lambda>e. lo \<le> fst e \<and> fst e \<le> hi) t))"

section \<open>Invariant\<close>

lemma bt_ok_Nil [simp, invar_intros]: "bt_ok []"
  by (simp add: bt_ok_def)

lemma bt_ok_Cons: "bt_ok ((k, v) # t) \<longleftrightarrow> (\<forall>e \<in> set t. k < fst e) \<and> bt_ok t"
  by (auto simp: bt_ok_def)

lemma bt_ok_distinct: "bt_ok t \<Longrightarrow> distinct (map fst t)"
  unfolding bt_ok_def by (simp add: strict_sorted_iff)

lemma bt_ok_filter: "bt_ok t \<Longrightarrow> bt_ok (filter P t)"
  by (induction t) (auto simp: bt_ok_Cons)

lemma bt_ok_remove [invar_intros]: "bt_ok t \<Longrightarrow> bt_ok (bt_remove k t)"
  by (simp add: bt_remove_def bt_ok_filter)

lemma bt_insert_Nil [simp]: "bt_insert k v [] = [(k, v)]"
  by (simp add: bt_insert_def)

lemma bt_insert_Cons:
  assumes "bt_ok ((a, b) # t)"
  shows "bt_insert k v ((a, b) # t) =
    (if a < k then (a, b) # bt_insert k v t
     else if a = k then (k, v) # t else (k, v) # (a, b) # t)"
proof -
  have "dropWhile (\<lambda>e. fst e \<le> k) t = t" if "a = k"
    using assms that by (cases t) (auto simp: bt_ok_Cons)
  then show ?thesis
    by (auto simp: bt_insert_def)
qed

lemma set_bt_insert:
  "bt_ok t \<Longrightarrow> set (bt_insert k v t) = insert (k, v) {e \<in> set t. fst e \<noteq> k}"
proof (induction t)
  case Nil
  then show ?case by simp
next
  case (Cons e t)
  obtain a b where e: "e = (a, b)" by (cases e)
  from Cons.prems have ok: "bt_ok t" and lt: "\<forall>e \<in> set t. a < fst e"
    by (simp_all add: e bt_ok_Cons)
  show ?case
    using Cons.IH[OF ok] Cons.prems lt by (auto simp: e bt_insert_Cons)
qed

lemma bt_ok_insert [invar_intros]: "bt_ok t \<Longrightarrow> bt_ok (bt_insert k v t)"
proof (induction t)
  case Nil
  then show ?case by (simp add: bt_ok_Cons)
next
  case (Cons e t)
  obtain a b where e: "e = (a, b)" by (cases e)
  from Cons.prems have ok: "bt_ok t" and lt: "\<forall>e \<in> set t. a < fst e"
    by (simp_all add: e bt_ok_Cons)
  show ?case
    using Cons.IH[OF ok] Cons.prems lt
    by (fastforce simp: e bt_insert_Cons bt_ok_Cons set_bt_insert[OF ok])
qed

section \<open>Lookups\<close>

lemma bt_get_iff: "bt_ok t \<Longrightarrow> bt_get t k = Some v \<longleftrightarrow> (k, v) \<in> set t"
  by (simp add: bt_ok_distinct)

lemma bt_get_insert [container_simps]:
  "bt_ok t \<Longrightarrow> bt_get (bt_insert k v t) = (bt_get t)(k \<mapsto> v)"
proof (rule ext)
  fix j
  assume ok: "bt_ok t"
  show "bt_get (bt_insert k v t) j = ((bt_get t)(k \<mapsto> v)) j"
  proof (cases "((bt_get t)(k \<mapsto> v)) j")
    case None
    then show ?thesis
      using ok by (auto simp: map_of_eq_None_iff set_bt_insert split: if_splits)
  next
    case (Some w)
    then show ?thesis
      using ok by (auto simp: bt_get_iff bt_ok_insert set_bt_insert split: if_splits)
  qed
qed

lemma bt_get_remove [container_simps]: "bt_get (bt_remove k t) = (bt_get t)(k := None)"
  by (rule ext, induction t) (auto simp: bt_remove_def)

lemma bt_filter_key: "bt_ok t \<Longrightarrow> bt_get t k = Some v \<Longrightarrow> filter (\<lambda>e. fst e = k) t = [(k, v)]"
proof (induction t)
  case (Cons e t)
  obtain a b where e: "e = (a, b)" by (cases e)
  have "filter (\<lambda>e. fst e = a) t = []"
    using Cons.prems(1) by (auto simp: e bt_ok_Cons intro!: filter_False)
  with Cons show ?case by (auto simp: e bt_ok_Cons split: if_splits)
qed simp

lemma set_bt_remove: "set (bt_remove k t) = {e \<in> set t. fst e \<noteq> k}"
  by (auto simp: bt_remove_def)

lemma set_bt_keys: "set (bt_keys t) = dom (bt_get t)"
  by (simp add: bt_keys_def dom_map_of_conv_image_fst)

lemma bt_keys_distinct: "bt_ok t \<Longrightarrow> distinct (bt_keys t)"
  by (simp add: bt_keys_def bt_ok_distinct)

end
