(* ===== verification/F64.thy ===== *)
theory F64
  imports Store_Prelude
begin

text \<open>
  \<open>f64\<close> values as their 64-bit patterns: sign bit 63 and the 63 bits below it, which the
  comparisons read as an unsigned magnitude (exponent and mantissa order as one integer).

  Rust has two comparisons and the sorted sets use both. \<open>f64::total_cmp\<close> orders all bit
  patterns, NaNs and the two zeros included; the operators \<open><=\<close> and \<open>>=\<close> follow IEEE 754:
  false as soon as one side is a NaN, and the two zeros are equal.
\<close>

unbundle bit_operations_syntax

type_synonym f64 = "64 word"

definition sign_bit :: "f64 \<Rightarrow> bool" where
  "sign_bit w = bit w 63"

definition magnitude :: "f64 \<Rightarrow> int" where
  "magnitude w = uint (w AND mask 63)"

definition is_nan :: "f64 \<Rightarrow> bool" where
  "is_nan w = (magnitude w > 0x7FF0000000000000)"

text \<open>The key \<open>total_cmp\<close> compares: a negative pattern counts down from -1.\<close>

definition total_key :: "f64 \<Rightarrow> int" where
  "total_key w = (if sign_bit w then - 1 - magnitude w else magnitude w)"

text \<open>The value of a pattern up to a strictly monotone map: the two zeros share a key.\<close>

definition num_key :: "f64 \<Rightarrow> int" where
  "num_key w = (if sign_bit w then - magnitude w else magnitude w)"

definition f64_le :: "f64 \<Rightarrow> f64 \<Rightarrow> bool" where
  "f64_le a b = (\<not> is_nan a \<and> \<not> is_nan b \<and> num_key a \<le> num_key b)"

definition is_zero :: "f64 \<Rightarrow> bool" where
  "is_zero w = (magnitude w = 0)"

lemmas f64_key_defs = total_key_def num_key_def f64_le_def is_zero_def is_nan_def

lemma magnitude_nonneg: "0 \<le> magnitude w"
  by (simp add: magnitude_def)

lemma f64_pattern:
  assumes "sign_bit a = sign_bit b" and "magnitude a = magnitude b"
  shows "a = b"
proof (rule bit_word_eqI)
  fix n
  assume n: "n < LENGTH(64)"
  from assms(2) have m: "a AND mask 63 = b AND mask 63"
    unfolding magnitude_def by (rule word_uint_eqI)
  show "bit a n = bit b n"
  proof (cases "n = 63")
    case True
    with assms(1) show ?thesis by (simp add: sign_bit_def)
  next
    case False
    with n have "n < 63" by simp
    moreover have "bit (a AND mask 63) n = bit (b AND mask 63) n" by (simp add: m)
    ultimately show ?thesis by (simp add: bit_and_iff bit_mask_iff)
  qed
qed

lemma total_key_inj: "total_key a = total_key b \<Longrightarrow> a = b"
  using magnitude_nonneg[of a] magnitude_nonneg[of b]
  by (intro f64_pattern) (auto simp: total_key_def split: if_splits)

lemma total_key_eq_iff [simp]: "total_key a = total_key b \<longleftrightarrow> a = b"
  using total_key_inj by blast

text \<open>
  The two comparisons agree on numbers, but for the sign of zero.
\<close>

lemma f64_le_total:
  assumes "\<not> is_nan a" and "\<not> is_nan b"
  shows "f64_le a b \<longleftrightarrow> total_key a \<le> total_key b \<or> is_zero a \<and> is_zero b"
  using assms magnitude_nonneg[of a] magnitude_nonneg[of b]
  by (auto simp: f64_key_defs)

text \<open>\<open>total_cmp\<close> as the standard library computes it: flip the low bits of negatives, compare as \<open>i64\<close>.\<close>

lemma total_key_bits: "total_key w = sint (if sign_bit w then w XOR mask 63 else w)"
proof -
  have bits: "magnitude w = take_bit 63 (uint w)" "sign_bit w = bit (uint w) 63"
    by (simp_all add: magnitude_def sign_bit_def uint_and take_bit_eq_mask bit_uint_iff
        uint_mask_eq)
  have "- 1 - magnitude w = signed_take_bit 63 (uint w XOR mask 63)" if "bit (uint w) 63"
  proof -
    have "- 1 - magnitude w = NOT (take_bit 63 (uint w))"
      by (simp add: bits not_eq_complement)
    also have "\<dots> = signed_take_bit 63 (uint w XOR mask 63)"
      using that by (intro bit_eqI) (auto simp: bit_simps min_def)
    finally show ?thesis .
  qed
  moreover have "magnitude w = signed_take_bit 63 (uint w)" if "\<not> bit (uint w) 63"
    using that by (simp add: bits signed_take_bit_eq_if_positive)
  ultimately show ?thesis
    by (simp add: total_key_def bits(2) sint_uint uint_xor uint_mask_eq)
qed

datatype ordered_score = OrderedScore (score_of: f64)

datatype ordering = Lesser | Same | Greater

definition total_cmp :: "f64 \<Rightarrow> f64 \<Rightarrow> ordering" where
  "total_cmp a b =
     (if total_key a < total_key b then Lesser else if total_key a = total_key b then Same else Greater)"

text \<open>\<open>Ord::cmp\<close> and \<open>PartialOrd::partial_cmp\<close> of \<open>OrderedScore\<close>; its order is the one of \<open>cmp\<close>.\<close>

definition ordered_score_cmp :: "ordered_score \<Rightarrow> ordered_score \<Rightarrow> ordering" where
  "ordered_score_cmp self other = total_cmp (score_of self) (score_of other)"

definition ordered_score_partial_cmp :: "ordered_score \<Rightarrow> ordered_score \<Rightarrow> ordering option" where
  "ordered_score_partial_cmp self other = Some (ordered_score_cmp self other)"

lemmas cmp_defs = ordered_score_cmp_def total_cmp_def

instantiation ordered_score :: linorder
begin

definition less_eq_ordered_score :: "ordered_score \<Rightarrow> ordered_score \<Rightarrow> bool" where
  "a \<le> b \<longleftrightarrow> ordered_score_cmp a b \<noteq> Greater"

definition less_ordered_score :: "ordered_score \<Rightarrow> ordered_score \<Rightarrow> bool" where
  "a < b \<longleftrightarrow> ordered_score_cmp a b = Lesser"

instance
  by intro_classes
    (auto simp: less_eq_ordered_score_def less_ordered_score_def cmp_defs ordered_score.expand
      split: if_splits)

end

lemma ordered_score_order:
  "a \<le> b \<longleftrightarrow> total_key (score_of a) \<le> total_key (score_of b)"
  "a < b \<longleftrightarrow> total_key (score_of a) < total_key (score_of b)"
  by (auto simp: less_eq_ordered_score_def less_ordered_score_def cmp_defs)

text \<open>\<open>cmp\<close> says \<open>Equal\<close> exactly for the same bit pattern, so equal scores share a bucket.\<close>

lemma ordered_score_cmp_Same: "ordered_score_cmp a b = Same \<longleftrightarrow> a = b"
  by (auto simp: cmp_defs ordered_score.expand)

end
