(* ===== verification/Score_Index.thy ===== *)
theory Score_Index
  imports Ordered_Map F64
begin

text \<open>
  \<open>InnerSet\<close> of \<^verbatim>\<open>rust/src/sorted_set.rs\<close>: the two indexes behind one in-memory sorted
  set, a B-tree from scores to the members with that score and a hash map from members to
  their scores, with the bodies of the operations on them.

  The abstraction is one flat list of members and scores, ordered by score under
  \<open>total_cmp\<close>, members of equal score in the order they were last added. Each operation on the
  two indexes is the evident operation on that list.
\<close>

type_synonym score_index = "(ordered_score, string list) btree"

record inner_set =
  scores :: score_index
  member_scores :: "(string, ordered_score) hashmap"

definition empty_inner :: inner_set where
  "empty_inner = \<lparr>scores = [], member_scores = []\<rparr>"

text \<open>Take a member out of the bucket of a score, and the bucket out if that empties it.\<close>

definition drop_member :: "string \<Rightarrow> ordered_score \<Rightarrow> score_index \<Rightarrow> score_index" where
  "drop_member member old t =
     (case bt_get t old of
        None \<Rightarrow> t
      | Some members \<Rightarrow>
          let members' = filter (\<lambda>m. m \<noteq> member) members
          in if members' = [] then bt_remove old t else bt_insert old members' t)"

definition inner_add :: "string \<Rightarrow> f64 \<Rightarrow> inner_set \<Rightarrow> inner_set" where
  "inner_add member scr inner =
     (let ord_score = OrderedScore scr;
          t1 = (case hm_get (member_scores inner) member of
                  Some old_score \<Rightarrow> drop_member member old_score (scores inner)
                | None \<Rightarrow> scores inner);
          bucket = (case bt_get t1 ord_score of Some members \<Rightarrow> members | None \<Rightarrow> [])
      in \<lparr>scores = bt_insert ord_score (bucket @ [member]) t1,
          member_scores = hm_insert member ord_score (member_scores inner)\<rparr>)"

definition inner_remove :: "string \<Rightarrow> inner_set \<Rightarrow> inner_set" where
  "inner_remove member inner =
     (case hm_get (member_scores inner) member of
        Some scr \<Rightarrow>
          \<lparr>scores = drop_member member scr (scores inner),
           member_scores = hm_remove member (member_scores inner)\<rparr>
      | None \<Rightarrow> inner)"

text \<open>
  The two loops of \<open>range_by_score\<close>. The flag tells that the limit was reached, where the
  code returns from inside the loops.
\<close>

fun push_members ::
  "nat option \<Rightarrow> f64 \<Rightarrow> string list \<Rightarrow> (string \<times> f64) list \<Rightarrow> bool \<times> (string \<times> f64) list" where
  "push_members limit scr [] res = (False, res)"
| "push_members limit scr (member # members) res =
     (let res' = res @ [(member, scr)] in
      case limit of
        Some l \<Rightarrow> if length res' \<ge> l then (True, res') else push_members limit scr members res'
      | None \<Rightarrow> push_members limit scr members res')"

fun push_range :: "nat option \<Rightarrow> score_index \<Rightarrow> (string \<times> f64) list \<Rightarrow> (string \<times> f64) list" where
  "push_range limit [] res = res"
| "push_range limit ((scr, members) # es) res =
     (case push_members limit (score_of scr) members res of
        (True, res') \<Rightarrow> res'
      | (False, res') \<Rightarrow> push_range limit es res')"

definition inner_range ::
  "f64 \<Rightarrow> f64 \<Rightarrow> nat option \<Rightarrow> inner_set \<Rightarrow> (string \<times> f64) list option" where
  "inner_range lo hi limit inner =
     map_option (\<lambda>es. push_range limit es []) (bt_range (OrderedScore lo) (OrderedScore hi) (scores inner))"

definition inner_count :: "inner_set \<Rightarrow> nat" where
  "inner_count inner = length (member_scores inner)"

definition scores_to_remove :: "f64 \<Rightarrow> f64 \<Rightarrow> inner_set \<Rightarrow> ordered_score list" where
  "scores_to_remove lo hi inner =
     filter (\<lambda>s. f64_le lo (score_of s) \<and> f64_le (score_of s) hi) (bt_keys (scores inner))"

fun remove_scores :: "ordered_score list \<Rightarrow> nat \<Rightarrow> inner_set \<Rightarrow> nat \<times> inner_set" where
  "remove_scores [] removed inner = (removed, inner)"
| "remove_scores (scr # rest) removed inner =
     (case bt_get (scores inner) scr of
        Some members \<Rightarrow>
          remove_scores rest (removed + length members)
            \<lparr>scores = bt_remove scr (scores inner),
             member_scores = fold hm_remove members (member_scores inner)\<rparr>
      | None \<Rightarrow> remove_scores rest removed inner)"

definition inner_remove_range :: "f64 \<Rightarrow> f64 \<Rightarrow> inner_set \<Rightarrow> nat \<times> inner_set" where
  "inner_remove_range lo hi inner = remove_scores (scores_to_remove lo hi inner) 0 inner"

definition inner_score :: "string \<Rightarrow> inner_set \<Rightarrow> f64 option" where
  "inner_score member inner = map_option score_of (hm_get (member_scores inner) member)"

section \<open>The flat list\<close>

type_synonym ranking = "(string \<times> f64) list"

definition bucket_list :: "ordered_score \<times> string list \<Rightarrow> ranking" where
  "bucket_list e = map (\<lambda>m. (m, score_of (fst e))) (snd e)"

definition flat :: "score_index \<Rightarrow> ranking" where
  "flat t = concat (map bucket_list t)"

lemma flat_simps [simp]:
  "flat [] = []" "flat (e # t) = bucket_list e @ flat t" "flat (t @ u) = flat t @ flat u"
  by (simp_all add: flat_def)

lemma bucket_list_simps [simp]:
  "bucket_list (s, []) = []"
  "bucket_list (s, ms @ ns) = bucket_list (s, ms) @ bucket_list (s, ns)"
  "bucket_list (s, [m]) = [(m, score_of s)]"
  "length (bucket_list (s, ms)) = length ms"
  "map fst (bucket_list (s, ms)) = ms"
  by (simp_all add: bucket_list_def comp_def)

lemma set_flat: "set (flat t) = {(m, score_of s) |m s ms. (s, ms) \<in> set t \<and> m \<in> set ms}"
  by (induction t) (auto simp: bucket_list_def, blast+)

text \<open>A filter on the buckets is a filter on the list.\<close>

lemma flat_filter: "flat (filter (\<lambda>e. P (score_of (fst e))) t) = filter (\<lambda>e. P (snd e)) (flat t)"
proof (induction t)
  case (Cons e t)
  then show ?case by (cases e) (simp add: bucket_list_def filter_map comp_def)
qed simp

definition in_order :: "ranking \<Rightarrow> bool" where
  "in_order r = sorted (map (\<lambda>e. OrderedScore (snd e)) r)"

lemma flat_in_order: "bt_ok t \<Longrightarrow> in_order (flat t)"
proof (induction t)
  case Nil
  then show ?case by (simp add: in_order_def)
next
  case (Cons e t)
  obtain s ms where e: "e = (s, ms)" by (cases e)
  have "sorted (map (\<lambda>e. OrderedScore (snd e)) (bucket_list e))"
    by (simp add: e bucket_list_def comp_def sorted_map_same sorted_wrt_map sorted_wrt_iff_nth_less)
  with Cons show ?case
    by (auto simp: in_order_def e bt_ok_Cons sorted_append set_flat bucket_list_def less_imp_le)
qed

section \<open>The invariant\<close>

text \<open>
  No bucket is empty, no member is listed twice, and the hash map knows exactly the scores of
  the list.
\<close>

definition members_of :: "inner_set \<Rightarrow> ranking" where
  "members_of inner = flat (scores inner)"

definition inner_ok :: "inner_set \<Rightarrow> bool" where
  "inner_ok inner \<longleftrightarrow>
     bt_ok (scores inner) \<and> hm_ok (member_scores inner)
     \<and> (\<forall>e \<in> set (scores inner). snd e \<noteq> [])
     \<and> distinct (map fst (members_of inner))
     \<and> (\<forall>m. map_option score_of (hm_get (member_scores inner) m) = hm_get (members_of inner) m)"

lemma inner_okD:
  assumes "inner_ok inner"
  shows "bt_ok (scores inner)" and "hm_ok (member_scores inner)"
    and "e \<in> set (scores inner) \<Longrightarrow> snd e \<noteq> []"
    and "distinct (map fst (members_of inner))"
    and "hm_get (members_of inner) m = map_option score_of (hm_get (member_scores inner) m)"
  using assms by (simp_all add: inner_ok_def)

lemma empty_inner_ok [invar_intros]: "inner_ok empty_inner" "members_of empty_inner = []"
  by (simp_all add: inner_ok_def empty_inner_def members_of_def)

lemma bucket_of_member:
  assumes "inner_ok inner" and "(s, ms) \<in> set (scores inner)" and "m \<in> set ms"
  shows "hm_get (member_scores inner) m = Some s"
proof -
  have "(m, score_of s) \<in> set (members_of inner)"
    using assms(2,3) by (auto simp: members_of_def set_flat)
  then have "hm_get (members_of inner) m = Some (score_of s)"
    using inner_okD(4)[OF assms(1)] by simp
  then show ?thesis using inner_okD(5)[OF assms(1)] by (auto simp: ordered_score.expand)
qed

lemma count_members: "inner_ok inner \<Longrightarrow> inner_count inner = length (members_of inner)"
proof -
  assume ok: "inner_ok inner"
  have "dom (hm_get (member_scores inner)) = dom (hm_get (members_of inner))"
    by (auto simp: dom_def inner_okD(5)[OF ok])
  then show ?thesis
    using inner_okD(2,4)[OF ok] hm_length[of "member_scores inner"] hm_length[of "members_of inner"]
    by (simp add: inner_count_def hm_ok_def)
qed

lemma score_member: "inner_ok inner \<Longrightarrow> inner_score m inner = hm_get (members_of inner) m"
  by (simp add: inner_score_def inner_okD(5))

section \<open>What the operations do to the list\<close>

text \<open>The B-tree updates as operations on all its entries.\<close>

lemma bt_insert_filter:
  assumes "bt_ok t"
  shows "bt_insert k v t = filter (\<lambda>e. fst e < k) t @ (k, v) # filter (\<lambda>e. k < fst e) t"
  using assms
proof (induction t)
  case (Cons e t)
  obtain a b where e: "e = (a, b)" by (cases e)
  have t: "filter (\<lambda>e. fst e < k) t = []" "filter (\<lambda>e. k < fst e) t = t" if "k \<le> a"
    using Cons.prems that by (fastforce simp: e bt_ok_Cons intro!: filter_True filter_False)+
  show ?case
    using Cons t by (auto simp: e bt_insert_Cons bt_ok_Cons)
qed simp

lemma bt_split:
  assumes "bt_ok t"
  shows "flat t = flat (filter (\<lambda>e. fst e < k) t)
    @ bucket_list (k, case bt_get t k of Some ms \<Rightarrow> ms | None \<Rightarrow> []) @ flat (filter (\<lambda>e. k < fst e) t)"
  using assms
proof (induction t)
  case (Cons e t)
  obtain a b where e: "e = (a, b)" by (cases e)
  have t: "filter (\<lambda>e. fst e < k) t = []" "filter (\<lambda>e. k < fst e) t = t" "k \<notin> fst ` set t" if "k \<le> a"
    using Cons.prems that by (fastforce simp: e bt_ok_Cons intro!: filter_True filter_False)+
  have n: "bt_get t k = None" if "k \<le> a"
    using t(3)[OF that] by (simp add: map_of_eq_None_iff)
  have IH: "flat t = flat (filter (\<lambda>e. fst e < k) t)
    @ bucket_list (k, case bt_get t k of Some ms \<Rightarrow> ms | None \<Rightarrow> []) @ flat (filter (\<lambda>e. k < fst e) t)"
    using Cons.prems by (intro Cons.IH) (simp add: e bt_ok_Cons)
  consider "k < a" | "k = a" | "a < k" by (rule linorder_cases)
  then show ?case
  proof cases
    case 1
    then have "k \<le> a" "\<not> a < k" "a \<noteq> k" by auto
    with 1 show ?thesis using t(1,2) n by (simp add: e)
  next
    case 2
    then have "k \<le> a" by simp
    with 2 show ?thesis using t(1,2)[OF \<open>k \<le> a\<close>] n[OF \<open>k \<le> a\<close>] by (simp add: e)
  next
    case 3
    then have "\<not> k < a" "k \<noteq> a" by auto
    with 3 show ?thesis by (subst flat_simps(2), subst IH) (simp add: e)
  qed
qed simp

lemma bt_remove_sides:
  "filter (\<lambda>e. fst e < k) (bt_remove k t) = filter (\<lambda>e. fst e < k) t"
  "filter (\<lambda>e. k < fst e) (bt_remove k t) = filter (\<lambda>e. k < fst e) t"
  by (induction t) (auto simp: bt_remove_def)

lemma flat_no_member: "\<forall>(s, ms) \<in> set t. m \<notin> set ms \<Longrightarrow> filter (\<lambda>e. fst e \<noteq> m) (flat t) = flat t"
  by (rule filter_True) (auto simp: set_flat)

lemma flat_drop_member:
  assumes "bt_ok t" and "\<And>s ms. (s, ms) \<in> set t \<Longrightarrow> m \<in> set ms \<Longrightarrow> s = old"
  shows "flat (drop_member m old t) = filter (\<lambda>e. fst e \<noteq> m) (flat t)"
proof -
  let ?b = "case bt_get t old of Some ms \<Rightarrow> ms | None \<Rightarrow> []"
  let ?lo = "filter (\<lambda>e. fst e < old) t" and ?hi = "filter (\<lambda>e. old < fst e) t"
  have "filter (\<lambda>e. fst e \<noteq> m) (flat ?lo) = flat ?lo" "filter (\<lambda>e. fst e \<noteq> m) (flat ?hi) = flat ?hi"
    using assms(2) by (intro flat_no_member; fastforce)+
  then have right: "filter (\<lambda>e. fst e \<noteq> m) (flat t)
      = flat ?lo @ bucket_list (old, filter (\<lambda>x. x \<noteq> m) ?b) @ flat ?hi"
    by (subst bt_split[OF assms(1), of old]) (simp add: bucket_list_def filter_map comp_def)
  have rest: "bt_ok (bt_remove old t)" "bt_get (bt_remove old t) old = None"
    "filter (\<lambda>e. fst e < old) (bt_remove old t) = ?lo" "filter (\<lambda>e. old < fst e) (bt_remove old t) = ?hi"
    by (rule bt_ok_remove[OF assms(1)], simp_all only: bt_get_remove fun_upd_same bt_remove_sides)
  show ?thesis
  proof (cases "bt_get t old")
    case None
    with right show ?thesis using bt_split[OF assms(1), of old] by (simp add: drop_member_def)
  next
    case (Some ms)
    show ?thesis
    proof (cases "filter (\<lambda>x. x \<noteq> m) ms = []")
      case True
      then show ?thesis
        using right Some bt_split[OF rest(1), of old] by (simp add: drop_member_def rest)
    next
      case False
      then show ?thesis
        using right Some by (simp add: drop_member_def bt_insert_filter[OF assms(1)])
    qed
  qed
qed

text \<open>Adding: out of its old place, in behind the last member whose score is not above.\<close>

definition rank_in :: "string \<Rightarrow> f64 \<Rightarrow> ranking \<Rightarrow> ranking" where
  "rank_in m s r =
     (let r' = filter (\<lambda>e. fst e \<noteq> m) r
      in filter (\<lambda>e. OrderedScore (snd e) \<le> OrderedScore s) r' @ [(m, s)]
        @ filter (\<lambda>e. OrderedScore s < OrderedScore (snd e)) r')"

lemma ordered_score_collapse [simp]: "OrderedScore (score_of s) = s"
  by (cases s) simp

lemma flat_push:
  assumes "bt_ok t"
  shows "flat (bt_insert (OrderedScore s)
      ((case bt_get t (OrderedScore s) of Some ms \<Rightarrow> ms | None \<Rightarrow> []) @ [m]) t)
    = filter (\<lambda>e. OrderedScore (snd e) \<le> OrderedScore s) (flat t) @ [(m, s)]
      @ filter (\<lambda>e. OrderedScore s < OrderedScore (snd e)) (flat t)"
proof -
  let ?k = "OrderedScore s"
  let ?b = "case bt_get t ?k of Some ms \<Rightarrow> ms | None \<Rightarrow> []"
  have hi: "filter (\<lambda>e. ?k < OrderedScore (snd e)) (flat t) = flat (filter (\<lambda>e. ?k < fst e) t)"
    using flat_filter[of "\<lambda>x. ?k < OrderedScore x" t] by simp
  have "filter (\<lambda>e. OrderedScore (snd e) \<le> ?k) (flat t) = flat (filter (\<lambda>e. fst e \<le> ?k) t)"
    using flat_filter[of "\<lambda>x. OrderedScore x \<le> ?k" t] by simp
  also have "\<dots> = flat (filter (\<lambda>e. fst e < ?k) t) @ bucket_list (?k, ?b)"
  proof -
    have "bt_ok (filter (\<lambda>e. fst e \<le> ?k) t)" using assms by (rule bt_ok_filter)
    from bt_split[OF this, of ?k] have "flat (filter (\<lambda>e. fst e \<le> ?k) t) =
        flat (filter (\<lambda>e. fst e < ?k \<and> fst e \<le> ?k) t)
        @ bucket_list (?k, case bt_get (filter (\<lambda>e. fst e \<le> ?k) t) ?k of Some ms \<Rightarrow> ms | None \<Rightarrow> [])
        @ flat (filter (\<lambda>e. ?k < fst e \<and> fst e \<le> ?k) t)"
      by (simp add: conj_commute)
    moreover have "bt_get (filter (\<lambda>e. fst e \<le> ?k) t) ?k = bt_get t ?k"
      by (induction t) auto
    moreover have "filter (\<lambda>e. fst e < ?k \<and> fst e \<le> ?k) t = filter (\<lambda>e. fst e < ?k) t"
      "filter (\<lambda>e. ?k < fst e \<and> fst e \<le> ?k) t = []"
      by (auto intro!: filter_cong filter_False)
    ultimately show ?thesis by simp
  qed
  finally show ?thesis
    unfolding hi bt_insert_filter[OF assms] by (simp add: bucket_list_def)
qed

lemma distinct_around:
  assumes "distinct (map fst r)" and "m \<notin> fst ` set r"
  shows "distinct (map fst (filter P r @ [(m, s)] @ filter (\<lambda>e. \<not> P e) r))"
proof -
  have "inj_on fst (set r)" using assms(1) by (simp add: distinct_map)
  then have "fst ` set (filter P r) \<inter> fst ` set (filter (\<lambda>e. \<not> P e) r) = {}"
    by (auto dest: inj_onD)
  with assms show ?thesis by (auto simp: distinct_map_filter)
qed

lemma rank_in_around:
  "rank_in m s r = filter (\<lambda>e. OrderedScore (snd e) \<le> OrderedScore s) (filter (\<lambda>e. fst e \<noteq> m) r)
    @ [(m, s)] @ filter (\<lambda>e. \<not> OrderedScore (snd e) \<le> OrderedScore s) (filter (\<lambda>e. fst e \<noteq> m) r)"
  by (simp add: rank_in_def Let_def not_le)

lemma rank_in_distinct:
  assumes "distinct (map fst r)"
  shows "distinct (map fst (rank_in m s r))"
  unfolding rank_in_around using assms by (intro distinct_around) (auto simp: distinct_map_filter)

lemma set_rank_in: "set (rank_in m s r) = insert (m, s) {e \<in> set r. fst e \<noteq> m}"
  unfolding rank_in_around by auto

lemma map_of_rank_in:
  assumes "distinct (map fst r)"
  shows "map_of (rank_in m s r) = (map_of r)(m \<mapsto> s)"
proof (rule ext)
  fix x
  have "map_of (rank_in m s r) x = Some v \<longleftrightarrow> ((map_of r)(m \<mapsto> s)) x = Some v" for v
    using assms rank_in_distinct[OF assms, of m s] by (auto simp: set_rank_in)
  then show "map_of (rank_in m s r) x = ((map_of r)(m \<mapsto> s)) x" by (metis not_Some_eq)
qed

lemma map_of_without: "map_of (filter (\<lambda>e. fst e \<noteq> m) r) = (map_of r)(m := None)"
  by (rule ext, induction r) auto

lemma drop_member_buckets:
  assumes "bt_ok t" and "\<And>e. e \<in> set t \<Longrightarrow> snd e \<noteq> []"
  shows "bt_ok (drop_member m old t)" and "e \<in> set (drop_member m old t) \<Longrightarrow> snd e \<noteq> []"
  using assms(1) assms(2)[of e]
  by (auto simp: drop_member_def Let_def bt_ok_remove bt_ok_insert set_bt_insert set_bt_remove
      split: option.splits if_splits)

text \<open>Without a member: what both \<open>add\<close> and \<open>remove\<close> do first.\<close>

lemma without_member:
  assumes ok: "inner_ok inner" and get: "hm_get (member_scores inner) m = Some old"
  defines "t \<equiv> drop_member m old (scores inner)"
  shows "bt_ok t" and "e \<in> set t \<Longrightarrow> snd e \<noteq> []"
    and "flat t = filter (\<lambda>e. fst e \<noteq> m) (members_of inner)"
proof -
  show "bt_ok t" "e \<in> set t \<Longrightarrow> snd e \<noteq> []"
    unfolding t_def using drop_member_buckets inner_okD(1,3)[OF ok] by blast+
  show "flat t = filter (\<lambda>e. fst e \<noteq> m) (members_of inner)"
    unfolding t_def members_of_def
    using inner_okD(1)[OF ok] bucket_of_member[OF ok] get by (intro flat_drop_member) auto
qed

lemma inner_remove_refines:
  assumes ok: "inner_ok inner"
  shows "inner_ok (inner_remove m inner)"
    and "members_of (inner_remove m inner) = filter (\<lambda>e. fst e \<noteq> m) (members_of inner)"
proof -
  have "inner_ok (inner_remove m inner)
    \<and> members_of (inner_remove m inner) = filter (\<lambda>e. fst e \<noteq> m) (members_of inner)"
  proof (cases "hm_get (member_scores inner) m")
    case None
    then have "hm_get (members_of inner) m = None" by (simp add: inner_okD(5)[OF ok])
    then have "filter (\<lambda>e. fst e \<noteq> m) (members_of inner) = members_of inner"
      by (auto simp: map_of_eq_None_iff intro!: filter_True)
    with None ok show ?thesis by (simp add: inner_remove_def)
  next
    case (Some old)
    note w = without_member[OF ok Some]
    have m: "members_of (inner_remove m inner) = filter (\<lambda>e. fst e \<noteq> m) (members_of inner)"
      using w(3) Some by (simp add: inner_remove_def members_of_def)
    have "inner_ok (inner_remove m inner)"
      unfolding inner_ok_def m map_of_without
      using w(1,2) Some inner_okD[OF ok]
      by (auto simp: inner_remove_def hm_ok_remove distinct_map_filter)
    with m show ?thesis by simp
  qed
  then show "inner_ok (inner_remove m inner)"
    "members_of (inner_remove m inner) = filter (\<lambda>e. fst e \<noteq> m) (members_of inner)" by simp_all
qed

lemma inner_add_refines:
  assumes ok: "inner_ok inner"
  shows "inner_ok (inner_add m s inner)"
    and "members_of (inner_add m s inner) = rank_in m s (members_of inner)"
proof -
  define t where "t = (case hm_get (member_scores inner) m of
      Some old \<Rightarrow> drop_member m old (scores inner) | None \<Rightarrow> scores inner)"
  have t: "bt_ok t" "\<forall>e \<in> set t. snd e \<noteq> []" "flat t = filter (\<lambda>e. fst e \<noteq> m) (members_of inner)"
  proof -
    have "bt_ok t \<and> (\<forall>e \<in> set t. snd e \<noteq> []) \<and> flat t = filter (\<lambda>e. fst e \<noteq> m) (members_of inner)"
    proof (cases "hm_get (member_scores inner) m")
      case None
      then have "inner_remove m inner = inner" "t = scores inner"
        by (simp_all add: inner_remove_def t_def)
      then show ?thesis
        using inner_remove_refines(2)[OF ok, of m] inner_okD(1,3)[OF ok] by (simp add: members_of_def)
    next
      case (Some old)
      then show ?thesis using without_member[OF ok Some] by (simp add: t_def)
    qed
    then show "bt_ok t" "\<forall>e \<in> set t. snd e \<noteq> []"
      "flat t = filter (\<lambda>e. fst e \<noteq> m) (members_of inner)" by blast+
  qed
  have add: "inner_add m s inner =
     \<lparr>scores = bt_insert (OrderedScore s)
        ((case bt_get t (OrderedScore s) of Some ms \<Rightarrow> ms | None \<Rightarrow> []) @ [m]) t,
      member_scores = hm_insert m (OrderedScore s) (member_scores inner)\<rparr>"
    by (simp add: inner_add_def Let_def t_def)
  show m: "members_of (inner_add m s inner) = rank_in m s (members_of inner)"
    unfolding members_of_def[of "inner_add m s inner"]
    using flat_push[OF t(1), of s m] by (simp add: add t(3) rank_in_def Let_def)
  show "inner_ok (inner_add m s inner)"
    unfolding inner_ok_def m
    using t(1,2) inner_okD[OF ok]
    by (auto simp: add hm_ok_insert bt_ok_insert set_bt_insert rank_in_distinct map_of_rank_in)
qed

section \<open>Ranges\<close>

text \<open>
  The loops stop after the member that reaches the limit: at least one member is pushed before
  the first test, so a limit of zero acts as one.
\<close>

lemma push_members_all:
  "push_members None scr members res = (False, res @ bucket_list (OrderedScore scr, members))"
  by (induction members arbitrary: res) (auto simp: bucket_list_def)

lemma push_range_all: "push_range None es res = res @ flat es"
proof (induction es arbitrary: res)
  case (Cons e es)
  then show ?case by (cases e) (simp add: push_members_all)
qed simp

lemma push_members_limit:
  assumes "length res < l"
  shows "push_members (Some l) scr members res =
    (l \<le> length res + length members,
     take l (res @ bucket_list (OrderedScore scr, members)))"
  using assms
proof (induction members arbitrary: res)
  case (Cons m members)
  then show ?case
    by (auto simp: bucket_list_def Let_def take_Cons' Suc_le_eq not_le split: if_splits)
qed simp

lemma push_range_limit:
  assumes "length res < l"
  shows "push_range (Some l) es res = take l (res @ flat es)"
  using assms
proof (induction es arbitrary: res)
  case (Cons e es)
  obtain s ms where e: "e = (s, ms)" by (cases e)
  let ?b = "bucket_list (s, ms)"
  show ?case
  proof (cases "l \<le> length res + length ms")
    case True
    with Cons.prems show ?thesis by (simp add: e push_members_limit)
  next
    case False
    then have "push_members (Some l) (score_of s) ms res = (False, res @ ?b)"
      using Cons.prems by (simp add: push_members_limit)
    with False Cons.IH[of "res @ ?b"] show ?thesis by (simp add: e)
  qed
qed simp

lemma push_members_zero:
  "push_members (Some 0) scr (m # members) res = push_members (Some (Suc (length res))) scr (m # members) res"
  by simp

lemma push_range_zero:
  assumes "\<forall>e \<in> set es. snd e \<noteq> []"
  shows "push_range (Some 0) es [] = take 1 (flat es)"
proof (cases es)
  case (Cons e es')
  obtain s m ms where "e = (s, m # ms)" using assms Cons by (cases e) (auto simp: neq_Nil_conv)
  with Cons show ?thesis by (simp add: bucket_list_def)
qed simp

definition limited :: "nat option \<Rightarrow> 'a list \<Rightarrow> 'a list" where
  "limited limit xs = (case limit of None \<Rightarrow> xs | Some l \<Rightarrow> take (max 1 l) xs)"

definition in_score_range :: "f64 \<Rightarrow> f64 \<Rightarrow> f64 \<Rightarrow> bool" where
  "in_score_range lo hi s \<longleftrightarrow>
     OrderedScore lo \<le> OrderedScore s \<and> OrderedScore s \<le> OrderedScore hi"

lemma inner_range_refines:
  assumes ok: "inner_ok inner"
  shows "inner_range lo hi limit inner =
    (if OrderedScore hi < OrderedScore lo then None
     else Some (limited limit (filter (\<lambda>e. in_score_range lo hi (snd e)) (members_of inner))))"
proof -
  define es where
    "es = filter (\<lambda>e. OrderedScore lo \<le> fst e \<and> fst e \<le> OrderedScore hi) (scores inner)"
  have flat_es: "flat es = filter (\<lambda>e. in_score_range lo hi (snd e)) (members_of inner)"
    using flat_filter[of "in_score_range lo hi" "scores inner"]
    by (simp add: es_def in_score_range_def members_of_def)
  have "\<forall>e \<in> set es. snd e \<noteq> []" using inner_okD(3)[OF ok] by (auto simp: es_def)
  then have "push_range limit es [] = limited limit (flat es)"
  proof (cases limit)
    case (Some l)
    then show ?thesis
      using push_range_zero[OF \<open>\<forall>e \<in> set es. snd e \<noteq> []\<close>] push_range_limit[of "[]" l es]
      by (cases l) (simp_all add: limited_def)
  qed (simp add: limited_def push_range_all)
  then show ?thesis
    by (simp add: inner_range_def bt_range_def flat_es flip: es_def)
qed

text \<open>Removing one bucket.\<close>

lemma hm_remove_all:
  "hm_get (fold hm_remove ms h) m = (if m \<in> set ms then None else hm_get h m)"
  by (induction ms arbitrary: h) auto

lemma hm_ok_remove_all: "hm_ok h \<Longrightarrow> hm_ok (fold hm_remove ms h)"
  by (induction ms arbitrary: h) (auto simp: hm_ok_remove)

definition without_score :: "ordered_score \<Rightarrow> string list \<Rightarrow> inner_set \<Rightarrow> inner_set" where
  "without_score scr ms inner =
     \<lparr>scores = bt_remove scr (scores inner), member_scores = fold hm_remove ms (member_scores inner)\<rparr>"

lemma without_score_refines:
  assumes ok: "inner_ok inner" and get: "bt_get (scores inner) scr = Some ms"
  shows "inner_ok (without_score scr ms inner)"
    and "members_of (without_score scr ms inner)
      = filter (\<lambda>e. OrderedScore (snd e) \<noteq> scr) (members_of inner)"
    and "length ms = length (filter (\<lambda>e. OrderedScore (snd e) = scr) (members_of inner))"
proof -
  let ?r = "members_of inner"
  have bt: "bt_ok (scores inner)" and mem: "(scr, ms) \<in> set (scores inner)"
    using inner_okD(1)[OF ok] get by (auto simp: bt_get_iff)
  show m: "members_of (without_score scr ms inner) = filter (\<lambda>e. OrderedScore (snd e) \<noteq> scr) ?r"
    using flat_filter[of "\<lambda>x. OrderedScore x \<noteq> scr" "scores inner"]
    by (simp add: members_of_def without_score_def bt_remove_def)
  have "filter (\<lambda>e. fst e = scr) (scores inner) = [(scr, ms)]"
    using bt get by (rule bt_filter_key)
  then have bucket: "filter (\<lambda>e. OrderedScore (snd e) = scr) ?r = bucket_list (scr, ms)"
    using flat_filter[of "\<lambda>x. OrderedScore x = scr" "scores inner"] by (simp add: members_of_def)
  then show "length ms = length (filter (\<lambda>e. OrderedScore (snd e) = scr) ?r)" by simp
  have ms: "x \<in> set ms \<longleftrightarrow> hm_get (member_scores inner) x = Some scr" for x
  proof
    assume "hm_get (member_scores inner) x = Some scr"
    then have "(x, score_of scr) \<in> set ?r"
      using inner_okD(4,5)[OF ok] by (metis map_of_SomeD option.simps(9))
    then have "(x, score_of scr) \<in> set (bucket_list (scr, ms))" by (simp flip: bucket)
    then show "x \<in> set ms" by (auto simp: bucket_list_def)
  qed (use bucket_of_member[OF ok mem] in blast)
  have filt: "hm_get (filter (\<lambda>e. OrderedScore (snd e) \<noteq> scr) r) x =
      (case hm_get r x of Some v \<Rightarrow> if OrderedScore v = scr then None else Some v | None \<Rightarrow> None)"
    if "distinct (map fst r)" for r :: ranking and x
    using that by (induction r) (auto simp: map_of_eq_None_iff split: option.splits)
  show "inner_ok (without_score scr ms inner)"
    unfolding inner_ok_def m
    using bt inner_okD[OF ok]
    by (auto simp: without_score_def bt_ok_remove hm_ok_remove_all set_bt_remove distinct_map_filter
        hm_remove_all filt ms split: option.splits)
qed

lemma remove_scores_refines:
  assumes "inner_ok inner" and "distinct ks" and "set ks \<subseteq> dom (bt_get (scores inner))"
  shows "\<exists>inner'. remove_scores ks n inner =
      (n + length (filter (\<lambda>e. OrderedScore (snd e) \<in> set ks) (members_of inner)), inner')
    \<and> inner_ok inner'
    \<and> members_of inner' = filter (\<lambda>e. OrderedScore (snd e) \<notin> set ks) (members_of inner)"
  using assms
proof (induction ks arbitrary: n inner)
  case Nil
  then show ?case by simp
next
  case (Cons k ks)
  then obtain ms where get: "bt_get (scores inner) k = Some ms" by auto
  note w = without_score_refines[OF Cons.prems(1) get]
  let ?i = "without_score k ms inner"
  have "set ks \<subseteq> dom (bt_get (scores ?i))"
    using Cons.prems(2,3) by (auto simp: without_score_def bt_get_remove)
  from Cons.IH[OF w(1) _ this, of "n + length ms"] Cons.prems(2) obtain inner' where
    i: "remove_scores ks (n + length ms) ?i
      = (n + length ms + length (filter (\<lambda>e. OrderedScore (snd e) \<in> set ks) (members_of ?i)), inner')"
    "inner_ok inner'"
    "members_of inner' = filter (\<lambda>e. OrderedScore (snd e) \<notin> set ks) (members_of ?i)" by auto
  have step: "remove_scores (k # ks) n inner = remove_scores ks (n + length ms) ?i"
    using get by (simp add: without_score_def)
  have "length (filter (\<lambda>e. OrderedScore (snd e) \<in> set (k # ks)) r)
      = length (filter (\<lambda>e. OrderedScore (snd e) = k) r)
        + length (filter (\<lambda>e. OrderedScore (snd e) \<in> set ks) (filter (\<lambda>e. OrderedScore (snd e) \<noteq> k) r))"
    for r :: ranking
    using Cons.prems(2) by (induction r) auto
  with i step w(2,3) show ?case
    by (auto simp: conj_commute)
qed

definition in_numeric_range :: "f64 \<Rightarrow> f64 \<Rightarrow> f64 \<Rightarrow> bool" where
  "in_numeric_range lo hi s \<longleftrightarrow> f64_le lo s \<and> f64_le s hi"

lemma inner_remove_range_refines:
  assumes ok: "inner_ok inner"
  shows "\<exists>inner'. inner_remove_range lo hi inner =
      (length (filter (\<lambda>e. in_numeric_range lo hi (snd e)) (members_of inner)), inner')
    \<and> inner_ok inner'
    \<and> members_of inner' = filter (\<lambda>e. \<not> in_numeric_range lo hi (snd e)) (members_of inner)"
proof -
  let ?ks = "scores_to_remove lo hi inner"
  have ks: "set ?ks = {s \<in> dom (bt_get (scores inner)). in_numeric_range lo hi (score_of s)}"
    by (auto simp: scores_to_remove_def set_bt_keys in_numeric_range_def)
  have "distinct ?ks"
    using inner_okD(1)[OF ok] by (simp add: scores_to_remove_def bt_keys_distinct)
  from remove_scores_refines[OF ok this, of 0] ks obtain inner' where
    i: "inner_remove_range lo hi inner
      = (length (filter (\<lambda>e. OrderedScore (snd e) \<in> set ?ks) (members_of inner)), inner')"
    "inner_ok inner'"
    "members_of inner' = filter (\<lambda>e. OrderedScore (snd e) \<notin> set ?ks) (members_of inner)"
    by (auto simp: inner_remove_range_def)
  have "OrderedScore (snd e) \<in> set ?ks \<longleftrightarrow> in_numeric_range lo hi (snd e)"
    if "e \<in> set (members_of inner)" for e
  proof -
    from that obtain m s ms where "e = (m, score_of s)" "(s, ms) \<in> set (scores inner)"
      by (auto simp: members_of_def set_flat)
    moreover from this(2) have "s \<in> dom (bt_get (scores inner))"
      by (metis dom_map_of_conv_image_fst fst_conv imageI)
    ultimately show ?thesis by (simp add: ks)
  qed
  with i show ?thesis by (auto cong: filter_cong)
qed

text \<open>
  The two notions of a range. They differ only at the zeros: a score that is one zero, against
  a bound that is the other.
\<close>

lemma ranges_agree:
  assumes "\<not> is_nan lo" and "\<not> is_nan hi" and "\<not> is_zero s \<or> \<not> is_zero lo \<and> \<not> is_zero hi"
  shows "in_score_range lo hi s \<longleftrightarrow> in_numeric_range lo hi s"
proof (cases "is_nan s")
  case False
  with assms show ?thesis
    by (auto simp: in_score_range_def in_numeric_range_def ordered_score_order f64_le_total)
next
  case True
  with assms(1,2) show ?thesis
    using magnitude_nonneg[of s] magnitude_nonneg[of lo] magnitude_nonneg[of hi]
    by (auto simp: in_score_range_def in_numeric_range_def ordered_score_order f64_key_defs
        split: if_splits)
qed

text \<open>At negative zero they do not agree.\<close>

lemma ranges_at_negative_zero:
  "\<not> in_score_range 0 hi 0x8000000000000000"
  "\<not> is_nan hi \<Longrightarrow> OrderedScore 0 \<le> OrderedScore hi \<Longrightarrow> in_numeric_range 0 hi 0x8000000000000000"
proof -
  have minus: "magnitude 0x8000000000000000 = 0" "sign_bit 0x8000000000000000" by code_simp+
  have zero: "magnitude 0 = 0" "\<not> sign_bit 0" by code_simp+
  show "\<not> in_score_range 0 hi 0x8000000000000000"
    using minus zero by (simp add: in_score_range_def ordered_score_order total_key_def)
  assume "\<not> is_nan hi" and "OrderedScore 0 \<le> OrderedScore hi"
  then show "in_numeric_range 0 hi 0x8000000000000000"
    using minus zero magnitude_nonneg[of hi]
    by (auto simp: in_numeric_range_def ordered_score_order f64_key_defs split: if_splits)
qed

end
