(* ===== verification/Sorted_Set_Store.thy ===== *)
theory Sorted_Set_Store
  imports Score_Index Executor Health_Probe
begin

text \<open>
  The sorted-set contract: the trait and its in-memory backend
  (\<^verbatim>\<open>rust/src/sorted_set.rs\<close>) on the indexes of \<open>Score_Index\<close>, the Redis backend over a
  driver that is a parameter, and the instrumented and the resilient wrappers.
\<close>

record 's sorted_set_store =
  ss_add :: "string \<Rightarrow> string \<Rightarrow> f64 \<Rightarrow> ('s, unit) future"
  ss_remove :: "string \<Rightarrow> string \<Rightarrow> ('s, unit) future"
  ss_range_by_score :: "string \<Rightarrow> f64 \<Rightarrow> f64 \<Rightarrow> nat option \<Rightarrow> ('s, (string \<times> f64) list) future"
  ss_count :: "string \<Rightarrow> ('s, nat) future"
  ss_remove_range :: "string \<Rightarrow> f64 \<Rightarrow> f64 \<Rightarrow> ('s, nat) future"
  ss_score :: "string \<Rightarrow> string \<Rightarrow> ('s, f64 option) future"
  ss_is_healthy :: "('s, health_status) future"

section \<open>The in-memory store\<close>

type_synonym ss_data = "(string, inner_set) hashmap"

definition mem_ss_add :: "string \<Rightarrow> string \<Rightarrow> f64 \<Rightarrow> ss_data \<Rightarrow> (unit result \<times> ss_data) option" where
  "mem_ss_add st member scr sets =
     (let inner = (case hm_get sets st of Some inner \<Rightarrow> inner | None \<Rightarrow> empty_inner)
      in Some (Inr (), hm_insert st (inner_add member scr inner) sets))"

definition mem_ss_remove :: "string \<Rightarrow> string \<Rightarrow> ss_data \<Rightarrow> (unit result \<times> ss_data) option" where
  "mem_ss_remove st member sets =
     (case hm_get sets st of
        Some inner \<Rightarrow> Some (Inr (), hm_insert st (inner_remove member inner) sets)
      | None \<Rightarrow> Some (Inr (), sets))"

definition mem_ss_range ::
  "string \<Rightarrow> f64 \<Rightarrow> f64 \<Rightarrow> nat option \<Rightarrow> ss_data \<Rightarrow> ((string \<times> f64) list result \<times> ss_data) option" where
  "mem_ss_range st lo hi limit sets =
     (case hm_get sets st of
        Some inner \<Rightarrow> map_option (\<lambda>res. (Inr res, sets)) (inner_range lo hi limit inner)
      | None \<Rightarrow> Some (Inr [], sets))"

definition mem_ss_count :: "string \<Rightarrow> ss_data \<Rightarrow> (nat result \<times> ss_data) option" where
  "mem_ss_count st sets =
     (case hm_get sets st of
        Some inner \<Rightarrow> Some (Inr (inner_count inner), sets)
      | None \<Rightarrow> Some (Inr 0, sets))"

definition mem_ss_remove_range ::
  "string \<Rightarrow> f64 \<Rightarrow> f64 \<Rightarrow> ss_data \<Rightarrow> (nat result \<times> ss_data) option" where
  "mem_ss_remove_range st lo hi sets =
     (case hm_get sets st of
        Some inner \<Rightarrow>
          (case inner_remove_range lo hi inner of (removed, inner') \<Rightarrow>
             Some (Inr removed, hm_insert st inner' sets))
      | None \<Rightarrow> Some (Inr 0, sets))"

definition mem_ss_score :: "string \<Rightarrow> string \<Rightarrow> ss_data \<Rightarrow> (f64 option result \<times> ss_data) option" where
  "mem_ss_score st member sets =
     (case hm_get sets st of
        Some inner \<Rightarrow> Some (Inr (inner_score member inner), sets)
      | None \<Rightarrow> Some (Inr None, sets))"

definition memory_sorted_set :: "duration \<Rightarrow> ss_data sorted_set_store" where
  "memory_sorted_set lat =
     \<lparr>ss_add = (\<lambda>st m scr. atomic lat (mem_ss_add st m scr)),
      ss_remove = (\<lambda>st m. atomic lat (mem_ss_remove st m)),
      ss_range_by_score = (\<lambda>st lo hi limit. atomic lat (mem_ss_range st lo hi limit)),
      ss_count = (\<lambda>st. atomic lat (mem_ss_count st)),
      ss_remove_range = (\<lambda>st lo hi. atomic lat (mem_ss_remove_range st lo hi)),
      ss_score = (\<lambda>st m. atomic lat (mem_ss_score st m)),
      ss_is_healthy = memory_is_healthy ''sorted_set'' lat\<rparr>"

section \<open>The Redis store\<close>

text \<open>The commands of the driver this store sends. A limit is passed \<open>as isize\<close>.\<close>

record 's zset_conn =
  zc_zadd :: "string \<Rightarrow> string \<Rightarrow> f64 \<Rightarrow> ('s, unit) future"
  zc_zrem :: "string \<Rightarrow> string \<Rightarrow> ('s, unit) future"
  zc_zrangebyscore_limit_withscores ::
    "string \<Rightarrow> f64 \<Rightarrow> f64 \<Rightarrow> int \<Rightarrow> int \<Rightarrow> ('s, (string \<times> f64) list) future"
  zc_zrangebyscore_withscores :: "string \<Rightarrow> f64 \<Rightarrow> f64 \<Rightarrow> ('s, (string \<times> f64) list) future"
  zc_zcard :: "string \<Rightarrow> ('s, nat) future"
  zc_zrembyscore :: "string \<Rightarrow> f64 \<Rightarrow> f64 \<Rightarrow> ('s, nat) future"
  zc_zscore :: "string \<Rightarrow> string \<Rightarrow> ('s, f64 option) future"
  zc_ping :: "('s, string) future"

definition as_isize :: "nat \<Rightarrow> int" where
  "as_isize n = (if n < 2 ^ 63 then int n else int n - 2 ^ 64)"

definition redis_range_by_score ::
  "'s zset_conn \<Rightarrow> string \<Rightarrow> f64 \<Rightarrow> f64 \<Rightarrow> nat option \<Rightarrow> ('s, (string \<times> f64) list) future" where
  "redis_range_by_score conn st lo hi limit =
     (case limit of
        Some l \<Rightarrow> zc_zrangebyscore_limit_withscores conn st lo hi 0 (as_isize l)
      | None \<Rightarrow> zc_zrangebyscore_withscores conn st lo hi)"

definition redis_sorted_set :: "'s zset_conn \<Rightarrow> 's sorted_set_store" where
  "redis_sorted_set conn =
     \<lparr>ss_add = zc_zadd conn,
      ss_remove = zc_zrem conn,
      ss_range_by_score = redis_range_by_score conn,
      ss_count = zc_zcard conn,
      ss_remove_range = zc_zrembyscore conn,
      ss_score = zc_zscore conn,
      ss_is_healthy = redis_is_healthy ''sorted_set'' (zc_ping conn)\<rparr>"

text \<open>\<open>RedisSortedSetStore::new\<close>.\<close>

definition redis_sorted_set_new ::
  "(string \<Rightarrow> 'client result) \<Rightarrow> ('client \<Rightarrow> 's zset_conn result) \<Rightarrow> string \<Rightarrow> 's sorted_set_store result" where
  "redis_sorted_set_new client_open connection_manager url =
     (case client_open url of
        Inl err \<Rightarrow> Inl err
      | Inr client \<Rightarrow>
          (case connection_manager client of Inl err \<Rightarrow> Inl err | Inr conn \<Rightarrow> Inr (redis_sorted_set conn)))"

section \<open>The instrumented store\<close>

definition instrumented_sorted_set :: "'s sorted_set_store \<Rightarrow> string \<Rightarrow> 's sorted_set_store" where
  "instrumented_sorted_set inner backend =
     \<lparr>ss_add = (\<lambda>st m scr.
        instrumented SortedSetOperationDuration ''sorted_set'' ''add'' backend (ss_add inner st m scr)),
      ss_remove = (\<lambda>st m.
        instrumented SortedSetOperationDuration ''sorted_set'' ''remove'' backend (ss_remove inner st m)),
      ss_range_by_score = (\<lambda>st lo hi limit.
        instrumented SortedSetOperationDuration ''sorted_set'' ''range_by_score'' backend
          (ss_range_by_score inner st lo hi limit)),
      ss_count = (\<lambda>st.
        instrumented SortedSetOperationDuration ''sorted_set'' ''count'' backend (ss_count inner st)),
      ss_remove_range = (\<lambda>st lo hi.
        instrumented SortedSetOperationDuration ''sorted_set'' ''remove_range'' backend
          (ss_remove_range inner st lo hi)),
      ss_score = (\<lambda>st m.
        instrumented SortedSetOperationDuration ''sorted_set'' ''score'' backend (ss_score inner st m)),
      ss_is_healthy = instrumented_health ''sorted_set'' backend (ss_is_healthy inner)\<rparr>"

section \<open>The resilient store\<close>

definition resilient_ss_add ::
  "bool \<Rightarrow> resilience_config \<Rightarrow> string \<Rightarrow> 's sorted_set_store \<Rightarrow> string \<Rightarrow> string \<Rightarrow> f64
     \<Rightarrow> ('s, unit) guarded_call" where
  "resilient_ss_add oc cfg backend s st m scr =
     execute oc cfg ''sorted_set'' backend ''add'' (ss_add s st m scr)"

definition resilient_ss_remove ::
  "bool \<Rightarrow> resilience_config \<Rightarrow> string \<Rightarrow> 's sorted_set_store \<Rightarrow> string \<Rightarrow> string
     \<Rightarrow> ('s, unit) guarded_call" where
  "resilient_ss_remove oc cfg backend s st m =
     execute oc cfg ''sorted_set'' backend ''remove'' (ss_remove s st m)"

definition resilient_ss_range_by_score ::
  "bool \<Rightarrow> resilience_config \<Rightarrow> string \<Rightarrow> 's sorted_set_store \<Rightarrow> string \<Rightarrow> f64 \<Rightarrow> f64 \<Rightarrow> nat option
     \<Rightarrow> ('s, (string \<times> f64) list) guarded_call" where
  "resilient_ss_range_by_score oc cfg backend s st lo hi limit =
     execute oc cfg ''sorted_set'' backend ''range_by_score'' (ss_range_by_score s st lo hi limit)"

definition resilient_ss_count ::
  "bool \<Rightarrow> resilience_config \<Rightarrow> string \<Rightarrow> 's sorted_set_store \<Rightarrow> string \<Rightarrow> ('s, nat) guarded_call" where
  "resilient_ss_count oc cfg backend s st =
     execute oc cfg ''sorted_set'' backend ''count'' (ss_count s st)"

definition resilient_ss_remove_range ::
  "bool \<Rightarrow> resilience_config \<Rightarrow> string \<Rightarrow> 's sorted_set_store \<Rightarrow> string \<Rightarrow> f64 \<Rightarrow> f64
     \<Rightarrow> ('s, nat) guarded_call" where
  "resilient_ss_remove_range oc cfg backend s st lo hi =
     execute oc cfg ''sorted_set'' backend ''remove_range'' (ss_remove_range s st lo hi)"

definition resilient_ss_score ::
  "bool \<Rightarrow> resilience_config \<Rightarrow> string \<Rightarrow> 's sorted_set_store \<Rightarrow> string \<Rightarrow> string
     \<Rightarrow> ('s, f64 option) guarded_call" where
  "resilient_ss_score oc cfg backend s st m =
     execute oc cfg ''sorted_set'' backend ''score'' (ss_score s st m)"

lemmas resilient_ss_defs = resilient_ss_add_def resilient_ss_remove_def
  resilient_ss_range_by_score_def resilient_ss_count_def resilient_ss_remove_range_def
  resilient_ss_score_def

section \<open>The contract\<close>

text \<open>The abstract store: for every set the list of its members in order.\<close>

type_synonym rankings = "string \<Rightarrow> ranking"

definition spec_ss_add :: "string \<Rightarrow> string \<Rightarrow> f64 \<Rightarrow> rankings \<Rightarrow> unit \<times> rankings" where
  "spec_ss_add st m scr R = ((), R(st := rank_in m scr (R st)))"

definition spec_ss_remove :: "string \<Rightarrow> string \<Rightarrow> rankings \<Rightarrow> unit \<times> rankings" where
  "spec_ss_remove st m R = ((), R(st := filter (\<lambda>e. fst e \<noteq> m) (R st)))"

definition spec_ss_range ::
  "string \<Rightarrow> f64 \<Rightarrow> f64 \<Rightarrow> nat option \<Rightarrow> rankings \<Rightarrow> (string \<times> f64) list \<times> rankings" where
  "spec_ss_range st lo hi limit R =
     (limited limit (filter (\<lambda>e. in_score_range lo hi (snd e)) (R st)), R)"

definition spec_ss_count :: "string \<Rightarrow> rankings \<Rightarrow> nat \<times> rankings" where
  "spec_ss_count st R = (length (R st), R)"

definition spec_ss_remove_range :: "string \<Rightarrow> f64 \<Rightarrow> f64 \<Rightarrow> rankings \<Rightarrow> nat \<times> rankings" where
  "spec_ss_remove_range st lo hi R =
     (length (filter (\<lambda>e. in_numeric_range lo hi (snd e)) (R st)),
      R(st := filter (\<lambda>e. \<not> in_numeric_range lo hi (snd e)) (R st)))"

definition spec_ss_score :: "string \<Rightarrow> string \<Rightarrow> rankings \<Rightarrow> f64 option \<times> rankings" where
  "spec_ss_score st m R = (map_of (R st) m, R)"

lemmas ss_spec_defs = spec_ss_add_def spec_ss_remove_def spec_ss_range_def spec_ss_count_def
  spec_ss_remove_range_def spec_ss_score_def

text \<open>
  What a backend promises; a range query only with its bounds the right way round.
\<close>

locale sorted_set_contract =
  fixes s :: "'s sorted_set_store" and ok :: "'s \<Rightarrow> bool" and \<alpha> :: "'s \<Rightarrow> rankings" and L :: duration
  assumes add_serves: "serves ok \<alpha> L (ss_add s st m scr) (spec_ss_add st m scr)"
    and remove_serves: "serves ok \<alpha> L (ss_remove s st m) (spec_ss_remove st m)"
    and range_serves: "OrderedScore lo \<le> OrderedScore hi \<Longrightarrow>
      serves ok \<alpha> L (ss_range_by_score s st lo hi limit) (spec_ss_range st lo hi limit)"
    and count_serves: "serves ok \<alpha> L (ss_count s st) (spec_ss_count st)"
    and remove_range_serves: "serves ok \<alpha> L (ss_remove_range s st lo hi) (spec_ss_remove_range st lo hi)"
    and score_serves: "serves ok \<alpha> L (ss_score s st m) (spec_ss_score st m)"
begin

lemmas contract_serves =
  add_serves remove_serves range_serves count_serves remove_range_serves score_serves

lemma instrumented_contract: "sorted_set_contract (instrumented_sorted_set s backend) ok \<alpha> L"
  by unfold_locales (simp_all add: instrumented_sorted_set_def serves_instrumented contract_serves)

end

text \<open>Client calls on the resilient store and their meaning.\<close>

datatype ss_call = SsAdd string string f64 | SsRemove string string
  | SsRange string f64 f64 "nat option" | SsCount string | SsRemoveRange string f64 f64
  | SsScore string string

datatype ss_reply = SsDone | SsMembers "(string \<times> f64) list" | SsNumber nat | SsValue "f64 option"

fun ss_client ::
  "bool \<Rightarrow> resilience_config \<Rightarrow> string \<Rightarrow> 's sorted_set_store \<Rightarrow> ss_call \<Rightarrow> ('s, ss_reply) guarded_call" where
  "ss_client oc cfg b s (SsAdd st m scr) = map_call (\<lambda>_. SsDone) (resilient_ss_add oc cfg b s st m scr)"
| "ss_client oc cfg b s (SsRemove st m) = map_call (\<lambda>_. SsDone) (resilient_ss_remove oc cfg b s st m)"
| "ss_client oc cfg b s (SsRange st lo hi limit) =
     map_call SsMembers (resilient_ss_range_by_score oc cfg b s st lo hi limit)"
| "ss_client oc cfg b s (SsCount st) = map_call SsNumber (resilient_ss_count oc cfg b s st)"
| "ss_client oc cfg b s (SsRemoveRange st lo hi) =
     map_call SsNumber (resilient_ss_remove_range oc cfg b s st lo hi)"
| "ss_client oc cfg b s (SsScore st m) = map_call SsValue (resilient_ss_score oc cfg b s st m)"

fun ss_meaning :: "ss_call \<Rightarrow> rankings \<Rightarrow> ss_reply \<times> rankings" where
  "ss_meaning (SsAdd st m scr) R = (SsDone, R(st := rank_in m scr (R st)))"
| "ss_meaning (SsRemove st m) R = (SsDone, R(st := filter (\<lambda>e. fst e \<noteq> m) (R st)))"
| "ss_meaning (SsRange st lo hi limit) R =
     (SsMembers (limited limit (filter (\<lambda>e. in_score_range lo hi (snd e)) (R st))), R)"
| "ss_meaning (SsCount st) R = (SsNumber (length (R st)), R)"
| "ss_meaning (SsRemoveRange st lo hi) R =
     (SsNumber (length (filter (\<lambda>e. in_numeric_range lo hi (snd e)) (R st))),
      R(st := filter (\<lambda>e. \<not> in_numeric_range lo hi (snd e)) (R st)))"
| "ss_meaning (SsScore st m) R = (SsValue (map_of (R st) m), R)"

fun ss_call_ok :: "ss_call \<Rightarrow> bool" where
  "ss_call_ok (SsRange st lo hi limit) = (OrderedScore lo \<le> OrderedScore hi)"
| "ss_call_ok _ = True"

locale sorted_set_guarded = sorted_set_contract +
  fixes oc :: bool and cfg :: resilience_config and backend :: string
  assumes enough_time: "L \<le> from_secs (operation_timeout_seconds cfg)"
begin

lemma client_serves:
  assumes "ss_call_ok c"
  shows "serves_call ok \<alpha> (ss_client oc cfg backend s c) (ss_meaning c)"
proof -
  note ex = serves_map_call[OF serves_execute[OF _ enough_time]]
  have "serves_call ok \<alpha> (ss_client oc cfg backend s c) (\<lambda>R. ss_meaning c R)"
    using assms ex[OF add_serves] ex[OF remove_serves] ex[OF range_serves] ex[OF count_serves]
      ex[OF remove_range_serves] ex[OF score_serves]
    by (cases c) (simp_all add: resilient_ss_defs ss_spec_defs)
  then show ?thesis .
qed

lemma client_run:
  assumes "\<forall>c \<in> set cs. ss_call_ok c" and "ok (store e)" and "cb_state cb \<noteq> Open"
  shows "\<exists>cb' e'. run_calls (ss_client oc cfg backend s) cs (cb, e)
        = Some (map Inr (fst (run_spec ss_meaning cs (\<alpha> (store e)))), (cb', e'))
      \<and> \<alpha> (store e') = snd (run_spec ss_meaning cs (\<alpha> (store e)))
      \<and> ok (store e') \<and> cb_state cb' \<noteq> Open"
  using client_serves assms by (rule run_calls_serve_on)

end

section \<open>The in-memory store keeps the contract\<close>

definition ss_ok :: "ss_data \<Rightarrow> bool" where
  "ss_ok sets \<longleftrightarrow> hm_ok sets \<and> (\<forall>inner \<in> ran (hm_get sets). inner_ok inner)"

definition ss_rankings :: "ss_data \<Rightarrow> rankings" where
  "ss_rankings sets st = (case hm_get sets st of Some inner \<Rightarrow> members_of inner | None \<Rightarrow> [])"

lemma ss_ok_Nil [invar_intros]: "ss_ok []"
  by (simp add: ss_ok_def)

lemma ss_okD: "ss_ok sets \<Longrightarrow> hm_get sets st = Some inner \<Longrightarrow> inner_ok inner"
  by (auto simp: ss_ok_def ran_def)

lemma ss_ok_rankings:
  assumes "ss_ok sets"
  shows "in_order (ss_rankings sets st) \<and> distinct (map fst (ss_rankings sets st))"
proof (cases "hm_get sets st")
  case None
  then show ?thesis by (simp add: ss_rankings_def in_order_def)
next
  case (Some inner)
  note ok = ss_okD[OF assms Some]
  from Some show ?thesis
    using flat_in_order[OF inner_okD(1)[OF ok]] inner_okD(4)[OF ok]
    by (simp add: ss_rankings_def members_of_def)
qed

lemma ss_update:
  assumes "ss_ok sets" and "inner_ok inner"
  shows "ss_ok (hm_insert st inner sets)"
    and "ss_rankings (hm_insert st inner sets) = (ss_rankings sets)(st := members_of inner)"
  using assms by (auto simp: ss_ok_def ran_def hm_ok_insert ss_rankings_def fun_eq_iff split: if_splits)

lemma rank_in_Nil: "rank_in m s [] = [(m, s)]"
  by (simp add: rank_in_def)

lemma members_of_empty_add: "inner_ok (inner_add m s empty_inner)"
  "members_of (inner_add m s empty_inner) = rank_in m s []"
  using inner_add_refines[OF empty_inner_ok(1)] by (simp_all add: empty_inner_ok)

lemma mem_ss_add_serves:
  assumes "ss_ok sets"
  shows "\<exists>sets'. mem_ss_add st m scr sets = Some (Inr (), sets')
    \<and> ss_rankings sets' = (ss_rankings sets)(st := rank_in m scr (ss_rankings sets st)) \<and> ss_ok sets'"
proof (cases "hm_get sets st")
  case None
  with assms show ?thesis
    using members_of_empty_add[of m scr] by (simp add: mem_ss_add_def ss_update ss_rankings_def)
next
  case (Some inner)
  with assms show ?thesis
    using inner_add_refines[OF ss_okD[OF assms Some], of m scr]
    by (simp add: mem_ss_add_def ss_update) (simp add: ss_rankings_def)
qed

lemma mem_ss_remove_serves:
  assumes "ss_ok sets"
  shows "\<exists>sets'. mem_ss_remove st m sets = Some (Inr (), sets')
    \<and> ss_rankings sets' = (ss_rankings sets)(st := filter (\<lambda>e. fst e \<noteq> m) (ss_rankings sets st))
    \<and> ss_ok sets'"
proof (cases "hm_get sets st")
  case None
  then have "ss_rankings sets = (ss_rankings sets)(st := filter (\<lambda>e. fst e \<noteq> m) (ss_rankings sets st))"
    by (auto simp: ss_rankings_def fun_eq_iff)
  with assms None show ?thesis by (simp add: mem_ss_remove_def)
next
  case (Some inner)
  with assms show ?thesis
    using inner_remove_refines[OF ss_okD[OF assms Some], of m]
    by (simp add: mem_ss_remove_def ss_update) (simp add: ss_rankings_def)
qed

lemma mem_ss_range_serves:
  assumes "ss_ok sets"
  shows "mem_ss_range st lo hi limit sets =
    (if OrderedScore hi < OrderedScore lo \<and> hm_get sets st \<noteq> None then None
     else Some (Inr (limited limit (filter (\<lambda>e. in_score_range lo hi (snd e)) (ss_rankings sets st))), sets))"
proof (cases "hm_get sets st")
  case None
  then show ?thesis by (simp add: mem_ss_range_def ss_rankings_def limited_def split: option.splits)
next
  case (Some inner)
  then show ?thesis
    using inner_range_refines[OF ss_okD[OF assms Some]] by (simp add: mem_ss_range_def ss_rankings_def)
qed

lemma mem_ss_remove_range_serves:
  assumes "ss_ok sets"
  shows "\<exists>sets'. mem_ss_remove_range st lo hi sets =
      Some (Inr (length (filter (\<lambda>e. in_numeric_range lo hi (snd e)) (ss_rankings sets st))), sets')
    \<and> ss_rankings sets' =
      (ss_rankings sets)(st := filter (\<lambda>e. \<not> in_numeric_range lo hi (snd e)) (ss_rankings sets st))
    \<and> ss_ok sets'"
proof (cases "hm_get sets st")
  case None
  then have "ss_rankings sets =
      (ss_rankings sets)(st := filter (\<lambda>e. \<not> in_numeric_range lo hi (snd e)) (ss_rankings sets st))"
    by (auto simp: ss_rankings_def fun_eq_iff)
  with assms None show ?thesis by (simp add: mem_ss_remove_range_def) (simp add: ss_rankings_def)
next
  case (Some inner)
  obtain inner' where "inner_remove_range lo hi inner =
      (length (filter (\<lambda>e. in_numeric_range lo hi (snd e)) (members_of inner)), inner')"
    "inner_ok inner'"
    "members_of inner' = filter (\<lambda>e. \<not> in_numeric_range lo hi (snd e)) (members_of inner)"
    using inner_remove_range_refines[OF ss_okD[OF assms Some], of lo hi] by blast
  with assms Some show ?thesis
    by (simp add: mem_ss_remove_range_def ss_update) (simp add: ss_rankings_def)
qed

lemma mem_ss_read_serves:
  assumes "ss_ok sets"
  shows "mem_ss_count st sets = Some (Inr (length (ss_rankings sets st)), sets)"
    and "mem_ss_score st m sets = Some (Inr (map_of (ss_rankings sets st) m), sets)"
  using ss_okD[OF assms, of st]
  by (cases "hm_get sets st";
      simp add: mem_ss_count_def mem_ss_score_def ss_rankings_def count_members score_member)+

lemma memory_ss_serves:
  "serves ss_ok ss_rankings lat (ss_add (memory_sorted_set lat) st m scr) (spec_ss_add st m scr)"
  "serves ss_ok ss_rankings lat (ss_remove (memory_sorted_set lat) st m) (spec_ss_remove st m)"
  "OrderedScore lo \<le> OrderedScore hi \<Longrightarrow>
    serves ss_ok ss_rankings lat (ss_range_by_score (memory_sorted_set lat) st lo hi limit)
      (spec_ss_range st lo hi limit)"
  "serves ss_ok ss_rankings lat (ss_count (memory_sorted_set lat) st) (spec_ss_count st)"
  "serves ss_ok ss_rankings lat (ss_remove_range (memory_sorted_set lat) st lo hi)
    (spec_ss_remove_range st lo hi)"
  "serves ss_ok ss_rankings lat (ss_score (memory_sorted_set lat) st m) (spec_ss_score st m)"
  subgoal
    by (simp add: memory_sorted_set_def, rule serves_atomic, unfold ss_spec_defs fst_conv snd_conv,
        erule mem_ss_add_serves)
  subgoal
    by (simp add: memory_sorted_set_def, rule serves_atomic, unfold ss_spec_defs fst_conv snd_conv,
        erule mem_ss_remove_serves)
  subgoal
    by (simp add: memory_sorted_set_def, rule serves_atomic) (simp add: ss_spec_defs mem_ss_range_serves)
  subgoal
    by (simp add: memory_sorted_set_def, rule serves_atomic) (simp add: ss_spec_defs mem_ss_read_serves)
  subgoal
    by (simp add: memory_sorted_set_def, rule serves_atomic, unfold ss_spec_defs fst_conv snd_conv,
        erule mem_ss_remove_range_serves)
  subgoal
    by (simp add: memory_sorted_set_def, rule serves_atomic) (simp add: ss_spec_defs mem_ss_read_serves)
  done

interpretation mem_ss: sorted_set_contract "memory_sorted_set lat" ss_ok ss_rankings lat for lat
  by unfold_locales (rule memory_ss_serves; assumption?)+

interpretation instrumented_mem_ss:
  sorted_set_contract "instrumented_sorted_set (memory_sorted_set lat) backend" ss_ok ss_rankings lat
  for lat backend
  by (rule mem_ss.instrumented_contract)

interpretation default_mem_ss:
  sorted_set_guarded "instrumented_sorted_set (memory_sorted_set 1000000) backend" ss_ok ss_rankings
    1000000 oc default_resilience backend
  for oc backend
  by unfold_locales (simp add: default_operation_timeout)

lemma memory_ss_stack_runs:
  assumes "lat \<le> from_secs (operation_timeout_seconds cfg)" and "\<forall>c \<in> set calls. ss_call_ok c"
  shows "\<exists>cb' e'. run_calls
      (ss_client oc cfg backend (instrumented_sorted_set (memory_sorted_set lat) backend)) calls
      (executor_breaker cfg, \<lparr>clock = t, events = evs, store = []\<rparr>)
    = Some (map Inr (fst (run_spec ss_meaning calls (\<lambda>_. []))), (cb', e'))
    \<and> ss_rankings (store e') = snd (run_spec ss_meaning calls (\<lambda>_. []))
    \<and> (\<forall>st. in_order (ss_rankings (store e') st) \<and> distinct (map fst (ss_rankings (store e') st)))"
proof -
  have "sorted_set_guarded (instrumented_sorted_set (memory_sorted_set lat) backend) ss_ok ss_rankings
      lat cfg"
    using instrumented_mem_ss.sorted_set_contract_axioms assms(1)
    by (intro sorted_set_guarded.intro sorted_set_guarded_axioms.intro)
  from sorted_set_guarded.client_run[OF this assms(2), of "\<lparr>clock = t, events = evs, store = []\<rparr>"
      "executor_breaker cfg" oc backend]
  obtain cb' e' where
    r: "run_calls (ss_client oc cfg backend (instrumented_sorted_set (memory_sorted_set lat) backend))
        calls (executor_breaker cfg, \<lparr>clock = t, events = evs, store = []\<rparr>)
      = Some (map Inr (fst (run_spec ss_meaning calls (ss_rankings []))), (cb', e'))"
      "ss_rankings (store e') = snd (run_spec ss_meaning calls (ss_rankings []))" "ss_ok (store e')"
    by (auto simp: executor_breaker_def cb_new_def ss_ok_Nil)
  have "ss_rankings [] = (\<lambda>_. [])" by (simp add: ss_rankings_def fun_eq_iff)
  with r ss_ok_rankings[OF r(3)] show ?thesis by auto
qed

text \<open>
  At zero the two disagree: a member whose score is negative zero is never in the answer to a
  range from positive zero, but \<open>remove_range\<close> with the same bounds removes it.
\<close>

lemma ranges_differ_at_zero:
  assumes "ss_ok sets" and "(m, 0x8000000000000000) \<in> set (ss_rankings sets st)" and "\<not> is_nan hi"
    and "mem_ss_range st 0 hi limit sets = Some (Inr found, sets)"
  shows "(m, 0x8000000000000000) \<notin> set found
    \<and> (\<exists>n sets'. mem_ss_remove_range st 0 hi sets = Some (Inr n, sets')
        \<and> (m, 0x8000000000000000) \<notin> set (ss_rankings sets' st))"
proof
  note range = mem_ss_range_serves[OF assms(1), of st 0 hi limit]
  have "hm_get sets st \<noteq> None" using assms(2) by (cases "hm_get sets st") (simp_all add: ss_rankings_def)
  then have hi: "OrderedScore 0 \<le> OrderedScore hi"
    and found: "found = limited limit (filter (\<lambda>e. in_score_range 0 hi (snd e)) (ss_rankings sets st))"
    using range assms(4) by (auto split: if_splits)
  show "(m, 0x8000000000000000) \<notin> set found"
    using ranges_at_negative_zero(1)[of hi] set_take_subset
    by (fastforce simp: found limited_def split: option.splits)
  show "\<exists>n sets'. mem_ss_remove_range st 0 hi sets = Some (Inr n, sets')
      \<and> (m, 0x8000000000000000) \<notin> set (ss_rankings sets' st)"
    using mem_ss_remove_range_serves[OF assms(1), of st 0 hi] ranges_at_negative_zero(2)[OF assms(3) hi]
    by auto
qed

end
