(* ===== verification/Redis_Sorted_Set.thy ===== *)
theory Redis_Sorted_Set
  imports Sorted_Set_Store "HOL-Library.List_Lexorder" "HOL-Library.Char_ord"
begin

text \<open>
  The Redis backend of \<^verbatim>\<open>rust/src/sorted_set.rs\<close> against the in-memory one. A server keeps
  members by score and, among equal scores, by name; the in-memory store keeps members of equal
  scores in the order they were added. Where no two members of a set share a score, the two stacks
  are shown to give the same replies.
\<close>

section \<open>The server's sorted sets\<close>

text \<open>The order of a sorted set on the server.\<close>

definition zbefore :: "string \<times> f64 \<Rightarrow> string \<times> f64 \<Rightarrow> bool" where
  "zbefore e e' \<longleftrightarrow>
     num_key (snd e) < num_key (snd e') \<or> num_key (snd e) = num_key (snd e') \<and> fst e < fst e'"

definition zrank_in :: "string \<Rightarrow> f64 \<Rightarrow> ranking \<Rightarrow> ranking" where
  "zrank_in m s r =
     (let r' = filter (\<lambda>e. fst e \<noteq> m) r
      in filter (\<lambda>e. zbefore e (m, s)) r' @ [(m, s)] @ filter (\<lambda>e. \<not> zbefore e (m, s)) r')"

text \<open>\<open>LIMIT 0 n\<close>: a negative count is no limit.\<close>

definition zlimited :: "int \<Rightarrow> 'a list \<Rightarrow> 'a list" where
  "zlimited n xs = (if n < 0 then xs else take (nat n) xs)"

text \<open>
  Documented behaviour of the server's commands; scores and bounds that are not numbers are
  refused there and left out here.
\<close>

definition keeps_zsets :: "'s zset_conn \<Rightarrow> ('s \<Rightarrow> bool) \<Rightarrow> ('s \<Rightarrow> rankings) \<Rightarrow> duration \<Rightarrow> bool" where
  "keeps_zsets conn ok \<alpha> L \<longleftrightarrow>
     (\<forall>st m s. \<not> is_nan s \<longrightarrow>
        serves ok \<alpha> L (zc_zadd conn st m s) (\<lambda>R. ((), R(st := zrank_in m s (R st)))))
     \<and> (\<forall>st m. serves ok \<alpha> L (zc_zrem conn st m) (spec_ss_remove st m))
     \<and> (\<forall>st lo hi. \<not> is_nan lo \<and> \<not> is_nan hi \<longrightarrow>
        serves ok \<alpha> L (zc_zrangebyscore_withscores conn st lo hi)
          (\<lambda>R. (filter (\<lambda>e. in_numeric_range lo hi (snd e)) (R st), R))
        \<and> (\<forall>n. serves ok \<alpha> L (zc_zrangebyscore_limit_withscores conn st lo hi 0 n)
          (\<lambda>R. (zlimited n (filter (\<lambda>e. in_numeric_range lo hi (snd e)) (R st)), R)))
        \<and> serves ok \<alpha> L (zc_zrembyscore conn st lo hi) (spec_ss_remove_range st lo hi))
     \<and> (\<forall>st. serves ok \<alpha> L (zc_zcard conn st) (spec_ss_count st))
     \<and> (\<forall>st m. serves ok \<alpha> L (zc_zscore conn st m) (spec_ss_score st m))"

section \<open>What the Redis stack means\<close>

fun redis_ss_meaning :: "ss_call \<Rightarrow> rankings \<Rightarrow> ss_reply \<times> rankings" where
  "redis_ss_meaning (SsAdd st m scr) R = (SsDone, R(st := zrank_in m scr (R st)))"
| "redis_ss_meaning (SsRange st lo hi limit) R =
     (SsMembers ((case limit of None \<Rightarrow> id | Some l \<Rightarrow> zlimited (as_isize l))
        (filter (\<lambda>e. in_numeric_range lo hi (snd e)) (R st))), R)"
| "redis_ss_meaning call R = ss_meaning call R"

fun numeric_call :: "ss_call \<Rightarrow> bool" where
  "numeric_call (SsAdd st m scr) = (\<not> is_nan scr)"
| "numeric_call (SsRange st lo hi limit) = (\<not> is_nan lo \<and> \<not> is_nan hi)"
| "numeric_call (SsRemoveRange st lo hi) = (\<not> is_nan lo \<and> \<not> is_nan hi)"
| "numeric_call _ = True"

lemma redis_ss_meaning_funs:
  "redis_ss_meaning (SsAdd st m scr) = (\<lambda>R. (SsDone, R(st := zrank_in m scr (R st))))"
  "redis_ss_meaning (SsRange st lo hi limit) =
     (\<lambda>R. (SsMembers ((case limit of None \<Rightarrow> id | Some l \<Rightarrow> zlimited (as_isize l))
        (filter (\<lambda>e. in_numeric_range lo hi (snd e)) (R st))), R))"
  "redis_ss_meaning (SsRemove st m) = (\<lambda>R. (SsDone, R(st := filter (\<lambda>e. fst e \<noteq> m) (R st))))"
  "redis_ss_meaning (SsCount st) = (\<lambda>R. (SsNumber (length (R st)), R))"
  "redis_ss_meaning (SsRemoveRange st lo hi) =
     (\<lambda>R. (SsNumber (length (filter (\<lambda>e. in_numeric_range lo hi (snd e)) (R st))),
        R(st := filter (\<lambda>e. \<not> in_numeric_range lo hi (snd e)) (R st))))"
  "redis_ss_meaning (SsScore st m) = (\<lambda>R. (SsValue (map_of (R st) m), R))"
  by (simp_all add: fun_eq_iff)

lemma redis_ss_stack_serves:
  assumes z: "keeps_zsets conn ok \<alpha> L" and time: "L \<le> from_secs (operation_timeout_seconds cfg)"
    and call: "numeric_call call"
  shows "serves_call ok \<alpha>
    (ss_client oc cfg backend (instrumented_sorted_set (redis_sorted_set conn) backend) call)
    (redis_ss_meaning call)"
proof -
  note run = serves_map_call[OF serves_execute[OF serves_instrumented time]]
  note z = z[unfolded keeps_zsets_def]
  note simps = redis_ss_meaning_funs instrumented_sorted_set_def redis_sorted_set_def resilient_ss_defs
    ss_spec_defs
  show ?thesis
  proof (cases call)
    case (SsAdd st m s)
    with call z have "serves ok \<alpha> L (zc_zadd conn st m s) (\<lambda>R. ((), R(st := zrank_in m s (R st))))"
      by simp
    from run[OF this] show ?thesis by (simp add: SsAdd simps)
  next
    case (SsRemove st m)
    from z have "serves ok \<alpha> L (zc_zrem conn st m) (spec_ss_remove st m)" by simp
    from run[OF this] show ?thesis by (simp add: SsRemove simps)
  next
    case (SsRange st lo hi limit)
    with call z have "serves ok \<alpha> L (redis_range_by_score conn st lo hi limit)
      (\<lambda>R. ((case limit of None \<Rightarrow> id | Some l \<Rightarrow> zlimited (as_isize l))
        (filter (\<lambda>e. in_numeric_range lo hi (snd e)) (R st)), R))"
      by (cases limit) (simp_all add: redis_range_by_score_def)
    from run[OF this] show ?thesis by (simp add: SsRange simps)
  next
    case (SsCount st)
    from z have "serves ok \<alpha> L (zc_zcard conn st) (spec_ss_count st)" by simp
    from run[OF this] show ?thesis by (simp add: SsCount simps)
  next
    case (SsRemoveRange st lo hi)
    with call z have "serves ok \<alpha> L (zc_zrembyscore conn st lo hi) (spec_ss_remove_range st lo hi)" by simp
    from run[OF this] show ?thesis by (simp add: SsRemoveRange simps)
  next
    case (SsScore st m)
    from z have "serves ok \<alpha> L (zc_zscore conn st m) (spec_ss_score st m)" by simp
    from run[OF this] show ?thesis by (simp add: SsScore simps)
  qed
qed

section \<open>Where the two meanings agree\<close>

text \<open>A number that is not the negative zero; on these the numeric and the total order agree.\<close>

definition clean :: "f64 \<Rightarrow> bool" where
  "clean s \<longleftrightarrow> \<not> is_nan s \<and> s \<noteq> 0x8000000000000000"

lemma clean_num_key:
  assumes "clean s"
  shows "num_key s = (if sign_bit s then total_key s + 1 else total_key s)"
    and "sign_bit s \<Longrightarrow> total_key s < - 1"
    and "\<not> sign_bit s \<Longrightarrow> 0 \<le> total_key s"
proof -
  have minus: "magnitude 0x8000000000000000 = 0" "sign_bit 0x8000000000000000" by code_simp+
  show "num_key s = (if sign_bit s then total_key s + 1 else total_key s)"
    by (simp add: num_key_def total_key_def)
  show "total_key s < - 1" if "sign_bit s"
  proof -
    have "magnitude s \<noteq> 0"
      using assms that f64_pattern[of s "0x8000000000000000"] minus by (auto simp: clean_def)
    with magnitude_nonneg[of s] that show ?thesis by (simp add: total_key_def)
  qed
  show "0 \<le> total_key s" if "\<not> sign_bit s"
    using magnitude_nonneg[of s] that by (simp add: total_key_def)
qed

lemma clean_order:
  assumes "clean a" and "clean b"
  shows "num_key a < num_key b \<longleftrightarrow> total_key a < total_key b"
    and "num_key a = num_key b \<longleftrightarrow> a = b"
proof -
  show less: "num_key a < num_key b \<longleftrightarrow> total_key a < total_key b"
    using clean_num_key[OF assms(1)] clean_num_key[OF assms(2)] by (auto split: if_splits)
  show "num_key a = num_key b \<longleftrightarrow> a = b"
    using clean_num_key[OF assms(1)] clean_num_key[OF assms(2)] total_key_inj[of a b]
    by (auto split: if_splits)
qed

lemma clean_range:
  assumes "clean lo" and "clean hi" and "clean s"
  shows "in_numeric_range lo hi s \<longleftrightarrow> in_score_range lo hi s"
proof -
  have le: "f64_le a b \<longleftrightarrow> OrderedScore a \<le> OrderedScore b" if "clean a" "clean b" for a b
    using that clean_order[of b a] by (auto simp: f64_le_def clean_def ordered_score_order)
  show ?thesis
    using assms by (simp add: in_numeric_range_def in_score_range_def le)
qed

lemma zrank_in_untied:
  assumes "clean s" and "\<forall>e \<in> set r. clean (snd e)" and "\<forall>e \<in> set r. fst e \<noteq> m \<longrightarrow> snd e \<noteq> s"
  shows "zrank_in m s r = rank_in m s r"
proof -
  define r' where "r' = filter (\<lambda>e. fst e \<noteq> m) r"
  have "zbefore e (m, s) \<longleftrightarrow> OrderedScore (snd e) \<le> OrderedScore s"
    "\<not> zbefore e (m, s) \<longleftrightarrow> OrderedScore s < OrderedScore (snd e)" if "e \<in> set r'" for e
  proof -
    from that assms have e: "clean (snd e)" "snd e \<noteq> s" by (auto simp: r'_def)
    have "zbefore e (m, s) \<longleftrightarrow> total_key (snd e) < total_key s"
      using e clean_order[OF e(1) assms(1)] by (simp add: zbefore_def)
    moreover have "total_key (snd e) \<noteq> total_key s" using e(2) total_key_inj by blast
    ultimately show "zbefore e (m, s) \<longleftrightarrow> OrderedScore (snd e) \<le> OrderedScore s"
      "\<not> zbefore e (m, s) \<longleftrightarrow> OrderedScore s < OrderedScore (snd e)"
      by (auto simp: ordered_score_order simp del: total_key_eq_iff)
  qed
  then have "filter (\<lambda>e. zbefore e (m, s)) r' = filter (\<lambda>e. OrderedScore (snd e) \<le> OrderedScore s) r'"
    "filter (\<lambda>e. \<not> zbefore e (m, s)) r' = filter (\<lambda>e. OrderedScore s < OrderedScore (snd e)) r'"
    by (simp_all cong: filter_cong)
  then show ?thesis by (simp add: zrank_in_def rank_in_def flip: r'_def)
qed

text \<open>A call on rankings without ties, and a sequence of such calls.\<close>

fun untied_call :: "ss_call \<Rightarrow> rankings \<Rightarrow> bool" where
  "untied_call (SsAdd st m s) R \<longleftrightarrow> clean s \<and> (\<forall>e \<in> set (R st). fst e \<noteq> m \<longrightarrow> snd e \<noteq> s)"
| "untied_call (SsRange st lo hi limit) R \<longleftrightarrow>
     clean lo \<and> clean hi \<and> OrderedScore lo \<le> OrderedScore hi
     \<and> (case limit of None \<Rightarrow> True | Some l \<Rightarrow> 0 < l \<and> l < 2 ^ 63)"
| "untied_call (SsRemoveRange st lo hi) R \<longleftrightarrow> clean lo \<and> clean hi"
| "untied_call _ R \<longleftrightarrow> True"

fun untied_run :: "ss_call list \<Rightarrow> rankings \<Rightarrow> bool" where
  "untied_run [] R \<longleftrightarrow> True"
| "untied_run (c # cs) R \<longleftrightarrow> untied_call c R \<and> untied_run cs (snd (ss_meaning c R))"

lemma untied_same:
  assumes "untied_call c R" and "\<forall>st. \<forall>e \<in> set (R st). clean (snd e)"
  shows "redis_ss_meaning c R = ss_meaning c R"
    and "\<forall>st. \<forall>e \<in> set (snd (ss_meaning c R) st). clean (snd e)"
proof -
  show "redis_ss_meaning c R = ss_meaning c R"
  proof (cases c)
    case (SsAdd st m s)
    with assms show ?thesis by (simp add: zrank_in_untied)
  next
    case (SsRange st lo hi limit)
    with assms have "in_numeric_range lo hi (snd e) \<longleftrightarrow> in_score_range lo hi (snd e)"
      if "e \<in> set (R st)" for e using that by (simp add: clean_range)
    then have "filter (\<lambda>e. in_numeric_range lo hi (snd e)) (R st)
        = filter (\<lambda>e. in_score_range lo hi (snd e)) (R st)" by (simp cong: filter_cong)
    with SsRange assms(1) show ?thesis
      by (auto simp: limited_def zlimited_def as_isize_def max_def split: option.splits)
  qed simp_all
  show "\<forall>st. \<forall>e \<in> set (snd (ss_meaning c R) st). clean (snd e)"
  proof -
    have "clean b" if "(a, b) \<in> set (R st)" for a b st using assms(2) that by fastforce
    with assms(1) show ?thesis by (cases c) (auto simp: rank_in_def Let_def)
  qed
qed

lemma untied_run_same:
  assumes "untied_run cs R" and "\<forall>st. \<forall>e \<in> set (R st). clean (snd e)"
  shows "run_spec redis_ss_meaning cs R = run_spec ss_meaning cs R"
    and "\<forall>c \<in> set cs. numeric_call c \<and> ss_call_ok c"
proof -
  show "run_spec redis_ss_meaning cs R = run_spec ss_meaning cs R"
    using assms
  proof (induction cs arbitrary: R)
    case (Cons c cs)
    then show ?case using untied_same[of c R] by (auto split: prod.splits)
  qed simp
  have "numeric_call c \<and> ss_call_ok c" if "untied_call c R" for c R
    using that by (cases c) (auto simp: clean_def)
  with assms show "\<forall>c \<in> set cs. numeric_call c \<and> ss_call_ok c"
    by (induction cs arbitrary: R) (auto dest: untied_same(2))
qed

lemma redis_ss_stack_runs:
  assumes "keeps_zsets conn ok \<alpha> L" and "L \<le> from_secs (operation_timeout_seconds cfg)"
    and "untied_run calls (\<alpha> db)" and "\<forall>st. \<forall>e \<in> set (\<alpha> db st). clean (snd e)" and "ok db"
  shows "\<exists>cb' e'. run_calls
      (ss_client oc cfg backend (instrumented_sorted_set (redis_sorted_set conn) backend)) calls
      (executor_breaker cfg, \<lparr>clock = t, events = evs, store = db\<rparr>)
    = Some (map Inr (fst (run_spec ss_meaning calls (\<alpha> db))), (cb', e'))
    \<and> \<alpha> (store e') = snd (run_spec ss_meaning calls (\<alpha> db))"
proof -
  note same = untied_run_same[OF assms(3,4)]
  from same(2) have numeric: "\<forall>c \<in> set calls. numeric_call c" by blast
  show ?thesis
    unfolding same(1)[symmetric]
    using fresh_stack_runs[where P = numeric_call and call = "ss_client oc cfg backend
        (instrumented_sorted_set (redis_sorted_set conn) backend)",
      OF redis_ss_stack_serves[OF assms(1,2)] numeric assms(5)] .
qed

text \<open>With a tie the two orders differ.\<close>

lemma ties_differ:
  "rank_in ''a'' 1 (rank_in ''b'' 1 []) = [(''b'', 1), (''a'', 1)]"
  "zrank_in ''a'' 1 (zrank_in ''b'' 1 []) = [(''a'', 1), (''b'', 1)]"
  by code_simp+

end
