(* ===== verification/Async_Ops.thy ===== *)
theory Async_Ops
  imports Executor
begin

text \<open>
  Sequencing of futures: a value, an error, an \<open>await\<close> followed by \<open>?\<close>, and an \<open>await\<close>
  whose result is matched. A deadline covers the whole future, so what the first part used up
  is taken off before the second part starts.
\<close>

definition ready :: "'a \<Rightarrow> ('s, 'a) future" where
  "ready v dl e = Finished (Inr v) e"

definition bail :: "store_error \<Rightarrow> ('s, 'a) future" where
  "bail err dl e = Finished (Inl err) e"

definition time_left_of :: "duration option \<Rightarrow> 's env \<Rightarrow> 's env \<Rightarrow> duration option" where
  "time_left_of dl e e1 = map_option (\<lambda>d. d - (clock e1 - clock e)) dl"

definition match_then ::
  "('s, 'a) future \<Rightarrow> ('a result \<Rightarrow> ('s, 'b) future) \<Rightarrow> ('s, 'b) future" where
  "match_then fut k dl e =
     (case fut dl e of
        Finished r e1 \<Rightarrow> k r (time_left_of dl e e1) e1
      | Unfinished e1 \<Rightarrow> Unfinished e1
      | Panicked e1 \<Rightarrow> Panicked e1)"

definition and_then :: "('s, 'a) future \<Rightarrow> ('a \<Rightarrow> ('s, 'b) future) \<Rightarrow> ('s, 'b) future" where
  "and_then fut k = match_then fut (\<lambda>r. case r of Inl err \<Rightarrow> bail err | Inr v \<Rightarrow> k v)"

text \<open>\<open>let _ = fut.await\<close>: the result is dropped, errors included.\<close>

definition ignoring :: "('s, 'a) future \<Rightarrow> ('s, 'b) future \<Rightarrow> ('s, 'b) future" where
  "ignoring fut k = match_then fut (\<lambda>_. k)"

lemma and_then_Finished:
  "fut dl e = Finished (Inr v) e1 \<Longrightarrow> and_then fut k dl e = k v (time_left_of dl e e1) e1"
  "fut dl e = Finished (Inl err) e1 \<Longrightarrow> and_then fut k dl e = Finished (Inl err) e1"
  by (simp_all add: and_then_def match_then_def bail_def)

text \<open>A future that is never ready: dropped at the deadline, if there is one.\<close>

definition pending :: "('s, 'a) future" where
  "pending dl e = Unfinished (case dl of None \<Rightarrow> e | Some d \<Rightarrow> sleep d e)"

section \<open>Sequences that implement an abstract operation\<close>

text \<open>
  \<open>settles ok \<alpha> L x fut r y\<close>: from every store that satisfies \<open>ok\<close> and whose abstraction is
  \<open>x\<close>, in at most \<open>L\<close>, the future finishes with the result \<open>r\<close> and leaves abstraction \<open>y\<close>. It
  \<open>delivers\<close> a value or \<open>rejects\<close> with an error. Delivering at every point is \<open>serves\<close>; the
  pointwise statement chains through \<open>await\<close>s that depend on what is stored.
\<close>

definition settles ::
  "('s \<Rightarrow> bool) \<Rightarrow> ('s \<Rightarrow> 'x) \<Rightarrow> duration \<Rightarrow> 'x \<Rightarrow> ('s, 'a) future \<Rightarrow> 'a result \<Rightarrow> 'x \<Rightarrow> bool" where
  "settles ok \<alpha> L x fut r y \<longleftrightarrow>
     (\<forall>dl e. ok (store e) \<longrightarrow> \<alpha> (store e) = x \<longrightarrow> in_time L dl \<longrightarrow>
        (\<exists>e'. fut dl e = Finished r e' \<and> \<alpha> (store e') = y \<and> ok (store e')
            \<and> clock e \<le> clock e' \<and> clock e' \<le> clock e + L))"

abbreviation delivers ::
  "('s \<Rightarrow> bool) \<Rightarrow> ('s \<Rightarrow> 'x) \<Rightarrow> duration \<Rightarrow> 'x \<Rightarrow> ('s, 'a) future \<Rightarrow> 'a \<Rightarrow> 'x \<Rightarrow> bool" where
  "delivers ok \<alpha> L x fut v y \<equiv> settles ok \<alpha> L x fut (Inr v) y"

abbreviation rejects ::
  "('s \<Rightarrow> bool) \<Rightarrow> ('s \<Rightarrow> 'x) \<Rightarrow> duration \<Rightarrow> 'x \<Rightarrow> ('s, 'a) future \<Rightarrow> store_error \<Rightarrow> 'x \<Rightarrow> bool" where
  "rejects ok \<alpha> L x fut err y \<equiv> settles ok \<alpha> L x fut (Inl err) y"

lemma settlesI:
  assumes "\<And>dl e. ok (store e) \<Longrightarrow> \<alpha> (store e) = x \<Longrightarrow> in_time L dl \<Longrightarrow>
      \<exists>e'. fut dl e = Finished r e' \<and> \<alpha> (store e') = y \<and> ok (store e')
         \<and> clock e \<le> clock e' \<and> clock e' \<le> clock e + L"
  shows "settles ok \<alpha> L x fut r y"
  using assms by (auto simp: settles_def)

lemma settlesE:
  assumes "settles ok \<alpha> L x fut r y" and "ok (store e)" and "\<alpha> (store e) = x" and "in_time L dl"
  obtains e' where "fut dl e = Finished r e'" and "\<alpha> (store e') = y" and "ok (store e')"
    and "clock e \<le> clock e'" and "clock e' \<le> clock e + L"
  using assms unfolding settles_def by blast

lemma settles_now:
  assumes "settles ok \<alpha> L x fut r y" and "ok (store e)" and "\<alpha> (store e) = x"
  shows "\<exists>e'. fut None e = Finished r e' \<and> \<alpha> (store e') = y \<and> clock e' \<le> clock e + L"
  using settlesE[OF assms, of None] by (auto simp: in_time_def)

lemma serves_iff_delivers:
  "serves ok \<alpha> L fut g \<longleftrightarrow> (\<forall>x. delivers ok \<alpha> L x fut (fst (g x)) (snd (g x)))"
  by (auto simp: serves_def settles_def)

text \<open>A coarser abstraction \<open>h\<close> of the state suffices when the operation respects it.\<close>

lemma serves_coarser:
  fixes fut :: "('s, 'a) future"
  assumes "\<And>x. delivers ok \<alpha> L x fut (fst (g (h x))) (y x)" and "\<And>x. h (y x) = snd (g (h x))"
  shows "serves ok (\<lambda>s. h (\<alpha> s)) L fut g"
proof (rule servesI)
  fix dl and e :: "'s env"
  assume e: "ok (store e)" and dl: "in_time L dl"
  obtain e' where
    "fut dl e = Finished (Inr (fst (g (h (\<alpha> (store e)))))) e'" "\<alpha> (store e') = y (\<alpha> (store e))"
    "ok (store e')" "clock e \<le> clock e'" "clock e' \<le> clock e + L"
    using settlesE[OF assms(1) e refl dl] by metis
  with assms(2) show "\<exists>e'. fut dl e = Finished (Inr (fst (g (h (\<alpha> (store e)))))) e'
      \<and> h (\<alpha> (store e')) = snd (g (h (\<alpha> (store e)))) \<and> ok (store e')
      \<and> clock e \<le> clock e' \<and> clock e' \<le> clock e + L"
    by auto
qed

lemma in_time_mono: "in_time M dl \<Longrightarrow> L \<le> M \<Longrightarrow> in_time L dl"
  by (auto simp: in_time_def split: option.splits)

lemma settles_weaken:
  assumes "settles ok \<alpha> L x fut r y" and "L \<le> M"
  shows "settles ok \<alpha> M x fut r y"
proof (rule settlesI)
  fix dl and e :: "'a env"
  assume "ok (store e)" and "\<alpha> (store e) = x" and "in_time M dl"
  from settlesE[OF assms(1) this(1,2) in_time_mono[OF this(3) assms(2)]] obtain e' where
    "fut dl e = Finished r e'" "\<alpha> (store e') = y" "ok (store e')"
    "clock e \<le> clock e'" "clock e' \<le> clock e + L" by metis
  with assms(2) show "\<exists>e'. fut dl e = Finished r e' \<and> \<alpha> (store e') = y \<and> ok (store e')
      \<and> clock e \<le> clock e' \<and> clock e' \<le> clock e + M"
    by (intro exI[of _ e']) simp
qed

lemma settles_atomic:
  assumes "\<And>s. ok s \<Longrightarrow> \<alpha> s = x \<Longrightarrow> \<exists>s'. f s = Some (r, s') \<and> \<alpha> s' = y \<and> ok s'"
  shows "settles ok \<alpha> lat x (atomic lat f) r y"
proof (rule settlesI)
  fix dl and e :: "'a env"
  assume "ok (store e)" "\<alpha> (store e) = x" and dl: "in_time lat dl"
  with assms obtain s' where "f (store e) = Some (r, s')" "\<alpha> s' = y" "ok s'" by blast
  with dl show "\<exists>e'. atomic lat f dl e = Finished r e' \<and> \<alpha> (store e') = y \<and> ok (store e')
      \<and> clock e \<le> clock e' \<and> clock e' \<le> clock e + lat"
    by (auto simp: atomic_def in_time_def split: option.splits)
qed

lemma delivers_ready : "delivers ok \<alpha> L x (ready v) v x"
  by (rule settlesI) (simp add: ready_def)

lemma settles_match_then:
  assumes "settles ok \<alpha> L x fut r y" and "settles ok \<alpha> M y (k r) q z"
  shows "settles ok \<alpha> (L + M) x (match_then fut k) q z"
proof (rule settlesI)
  fix dl and e :: "'a env"
  assume ok: "ok (store e)" "\<alpha> (store e) = x" and dl: "in_time (L + M) dl"
  from settlesE[OF assms(1) ok in_time_mono[OF dl]] obtain e1 where
    e1: "fut dl e = Finished r e1" "\<alpha> (store e1) = y" "ok (store e1)"
      "clock e \<le> clock e1" "clock e1 \<le> clock e + L" by (metis le_add1)
  have "in_time M (time_left_of dl e e1)"
    using dl e1(4,5) by (auto simp: in_time_def time_left_of_def split: option.splits)
  from settlesE[OF assms(2) e1(3,2) this] obtain e2 where
    "k r (time_left_of dl e e1) e1 = Finished q e2" "\<alpha> (store e2) = z" "ok (store e2)"
    "clock e1 \<le> clock e2" "clock e2 \<le> clock e1 + M" by metis
  with e1 show "\<exists>e'. match_then fut k dl e = Finished q e' \<and> \<alpha> (store e') = z \<and> ok (store e')
      \<and> clock e \<le> clock e' \<and> clock e' \<le> clock e + (L + M)"
    by (intro exI[of _ e2]) (simp add: match_then_def)
qed

lemma settles_bail: "rejects ok \<alpha> L x (bail err) err x"
  by (rule settlesI) (simp add: bail_def)

lemma settles_and_then:
  assumes "delivers ok \<alpha> L x fut v y" and "settles ok \<alpha> M y (k v) r z"
  shows "settles ok \<alpha> (L + M) x (and_then fut k) r z"
  unfolding and_then_def using assms(2) by (intro settles_match_then[OF assms(1)]) simp

lemma rejects_and_then:
  assumes "rejects ok \<alpha> L x fut err y"
  shows "rejects ok \<alpha> L x (and_then fut k) err y"
proof -
  have "rejects ok \<alpha> (L + 0) x (and_then fut k) err y"
    unfolding and_then_def by (intro settles_match_then[OF assms]) (simp add: settles_bail)
  then show ?thesis by simp
qed

lemma settles_ignoring:
  assumes "settles ok \<alpha> L x fut q y" and "settles ok \<alpha> M y k r z"
  shows "settles ok \<alpha> (L + M) x (ignoring fut k) r z"
  unfolding ignoring_def using assms by (intro settles_match_then)

lemma serves_ready [serves_intros]: "serves ok \<alpha> 0 (ready v) (\<lambda>x. (v, x))"
  by (simp add: serves_iff_delivers delivers_ready)

lemma serves_weaken:
  assumes "serves ok \<alpha> L fut g" and "L \<le> M"
  shows "serves ok \<alpha> M fut g"
  using assms by (auto simp: serves_iff_delivers intro: settles_weaken)

lemma serves_and_then:
  assumes "serves ok \<alpha> L fut g" and "\<And>v. serves ok \<alpha> M (k v) (h v)"
  shows "serves ok \<alpha> (L + M) (and_then fut k) (\<lambda>x. h (fst (g x)) (snd (g x)))"
  using assms unfolding serves_iff_delivers by (intro allI settles_and_then) blast+

lemma serves_ignoring:
  assumes "serves ok \<alpha> L fut g" and "serves ok \<alpha> M k h"
  shows "serves ok \<alpha> (L + M) (ignoring fut k) (\<lambda>x. h (snd (g x)))"
  using assms unfolding serves_iff_delivers by (intro allI settles_ignoring) blast+

end
