(* ===== verification/Pubsub_Store.thy ===== *)
theory Pubsub_Store
  imports Async_Ops Health_Probe
begin

text \<open>
  The publish/subscribe contract: the trait and the in-memory backend
  (\<^verbatim>\<open>rust/src/pubsub.rs\<close>), and the instrumented and the resilient wrappers. The broadcast
  channel of \<open>tokio\<close> is a parameter.
\<close>

record message =
  msg_channel :: string
  msg_payload :: bytes
  msg_timestamp :: int

record ('s, 'rx) pubsub_store =
  ps_publish :: "string \<Rightarrow> bytes \<Rightarrow> ('s, unit) future"
  ps_subscribe :: "string list \<Rightarrow> ('s, 'rx) future"
  ps_unsubscribe :: "string list \<Rightarrow> ('s, unit) future"
  ps_is_healthy :: "('s, health_status) future"

section \<open>The in-memory store\<close>

text \<open>
  The broadcast channel: a fresh sender of a capacity, a send (an error when nobody listens),
  a new receiver. \<open>bc_pending\<close> is what a receiver would read now; the store does not use it.
\<close>

record ('c, 'rx) broadcast =
  bc_channel :: "nat \<Rightarrow> 'c"
  bc_send :: "message \<Rightarrow> 'c \<Rightarrow> unit result \<times> 'c"
  bc_subscribe :: "'c \<Rightarrow> 'rx \<times> 'c"
  bc_pending :: "'rx \<Rightarrow> 'c \<Rightarrow> message list"

type_synonym 'c channels = "(string, 'c) hashmap"

text \<open>A call that reads the clock when it runs; \<open>utc\<close> turns the clock into a timestamp.\<close>

definition atomic_at ::
  "duration \<Rightarrow> (duration \<Rightarrow> 's \<Rightarrow> ('a result \<times> 's) option) \<Rightarrow> ('s, 'a) future" where
  "atomic_at lat f dl e = atomic lat (f (clock e + lat)) dl e"

definition mem_publish ::
  "('c, 'rx) broadcast \<Rightarrow> (duration \<Rightarrow> int) \<Rightarrow> string \<Rightarrow> bytes \<Rightarrow> duration \<Rightarrow> 'c channels
     \<Rightarrow> (unit result \<times> 'c channels) option" where
  "mem_publish bc utc chan payload t chans =
     (case hm_get chans chan of
        Some tx \<Rightarrow>
          let msg = \<lparr>msg_channel = chan, msg_payload = payload, msg_timestamp = utc t\<rparr>;
              tx' = snd (bc_send bc msg tx)
          in Some (Inr (), hm_insert chan tx' chans)
      | None \<Rightarrow> Some (Inr (), chans))"

definition first_channel :: "string list \<Rightarrow> string" where
  "first_channel chans = (case chans of [] \<Rightarrow> ''default'' | c # _ \<Rightarrow> c)"

definition mem_subscribe ::
  "('c, 'rx) broadcast \<Rightarrow> string list \<Rightarrow> 'c channels \<Rightarrow> ('rx result \<times> 'c channels) option" where
  "mem_subscribe bc names chans =
     (let chan = first_channel names;
          tx = (case hm_get chans chan of Some tx \<Rightarrow> tx | None \<Rightarrow> bc_channel bc 1000)
      in case bc_subscribe bc tx of
           (rx, tx') \<Rightarrow> Some (Inr rx, hm_insert chan tx' chans))"

definition mem_unsubscribe :: "string list \<Rightarrow> 's \<Rightarrow> (unit result \<times> 's) option" where
  "mem_unsubscribe names s = Some (Inr (), s)"

definition memory_pubsub ::
  "('c, 'rx) broadcast \<Rightarrow> (duration \<Rightarrow> int) \<Rightarrow> duration \<Rightarrow> ('c channels, 'rx) pubsub_store" where
  "memory_pubsub bc utc lat =
     \<lparr>ps_publish = (\<lambda>chan payload. atomic_at lat (mem_publish bc utc chan payload)),
      ps_subscribe = (\<lambda>names. atomic lat (mem_subscribe bc names)),
      ps_unsubscribe = (\<lambda>names. atomic lat (mem_unsubscribe names)),
      ps_is_healthy = memory_is_healthy ''pubsub'' lat\<rparr>"

section \<open>The instrumented store\<close>

definition instrumented_pubsub :: "('s, 'rx) pubsub_store \<Rightarrow> string \<Rightarrow> ('s, 'rx) pubsub_store" where
  "instrumented_pubsub inner backend =
     \<lparr>ps_publish = (\<lambda>chan payload.
        instrumented PubsubOperationDuration ''pubsub'' ''publish'' backend
          (ps_publish inner chan payload)),
      ps_subscribe = (\<lambda>names.
        instrumented PubsubOperationDuration ''pubsub'' ''subscribe'' backend
          (ps_subscribe inner names)),
      ps_unsubscribe = (\<lambda>names.
        instrumented PubsubOperationDuration ''pubsub'' ''unsubscribe'' backend
          (ps_unsubscribe inner names)),
      ps_is_healthy = instrumented_health ''pubsub'' backend (ps_is_healthy inner)\<rparr>"

section \<open>The resilient store\<close>

text \<open>Only \<open>publish\<close> goes through the executor.\<close>

definition resilient_publish ::
  "bool \<Rightarrow> resilience_config \<Rightarrow> string \<Rightarrow> ('s, 'rx) pubsub_store \<Rightarrow> string \<Rightarrow> bytes
     \<Rightarrow> ('s, unit) guarded_call" where
  "resilient_publish oc cfg backend s chan payload =
     execute oc cfg ''pubsub'' backend ''publish'' (ps_publish s chan payload)"

section \<open>Delivery\<close>

text \<open>
  Documented behaviour of the broadcast channel, for a receiver that is not dropped: a new
  receiver has nothing to read, an older one keeps what it has when another subscribes, and a
  message is appended for every receiver that has fewer than the capacity unread.
\<close>

definition broadcast_delivers :: "('c, 'rx) broadcast \<Rightarrow> ('rx \<Rightarrow> 'c \<Rightarrow> bool) \<Rightarrow> bool" where
  "broadcast_delivers bc listens \<longleftrightarrow>
     (\<forall>c. listens (fst (bc_subscribe bc c)) (snd (bc_subscribe bc c))
        \<and> bc_pending bc (fst (bc_subscribe bc c)) (snd (bc_subscribe bc c)) = [])
     \<and> (\<forall>c rx. listens rx c \<longrightarrow> listens rx (snd (bc_subscribe bc c))
        \<and> bc_pending bc rx (snd (bc_subscribe bc c)) = bc_pending bc rx c)
     \<and> (\<forall>c rx msg. listens rx c \<and> length (bc_pending bc rx c) < 1000
        \<longrightarrow> listens rx (snd (bc_send bc msg c))
          \<and> bc_pending bc rx (snd (bc_send bc msg c)) = bc_pending bc rx c @ [msg])"

text \<open>A run of publications, each at its time, and other subscriptions in between.\<close>

datatype ps_event = Publish string bytes duration | Subscribe "string list"

fun ps_apply :: "('c, 'rx) broadcast \<Rightarrow> (duration \<Rightarrow> int) \<Rightarrow> ps_event \<Rightarrow> 'c channels \<Rightarrow> 'c channels" where
  "ps_apply bc utc (Publish chan payload t) chans = snd (the (mem_publish bc utc chan payload t chans))"
| "ps_apply bc utc (Subscribe names) chans = snd (the (mem_subscribe bc names chans))"

fun messages_on :: "(duration \<Rightarrow> int) \<Rightarrow> string \<Rightarrow> ps_event list \<Rightarrow> message list" where
  "messages_on utc chan [] = []"
| "messages_on utc chan (Publish c payload t # evs) =
     (if c = chan then [\<lparr>msg_channel = chan, msg_payload = payload, msg_timestamp = utc t\<rparr>] else [])
       @ messages_on utc chan evs"
| "messages_on utc chan (Subscribe names # evs) = messages_on utc chan evs"

definition listening :: "('c, 'rx) broadcast \<Rightarrow> ('rx \<Rightarrow> 'c \<Rightarrow> bool) \<Rightarrow> 'rx \<Rightarrow> string
    \<Rightarrow> message list \<Rightarrow> 'c channels \<Rightarrow> bool" where
  "listening bc listens rx chan msgs chans \<longleftrightarrow>
     (\<exists>tx. hm_get chans chan = Some tx \<and> listens rx tx \<and> bc_pending bc rx tx = msgs)"

lemma subscribe_listens:
  assumes "broadcast_delivers bc listens"
  shows "\<exists>rx chans'. mem_subscribe bc names chans = Some (Inr rx, chans')
    \<and> listening bc listens rx (first_channel names) [] chans'"
proof -
  define tx where "tx = (case hm_get chans (first_channel names) of
    Some tx \<Rightarrow> tx | None \<Rightarrow> bc_channel bc 1000)"
  obtain rx tx' where sub: "bc_subscribe bc tx = (rx, tx')" by (cases "bc_subscribe bc tx")
  have "listens rx tx' \<and> bc_pending bc rx tx' = []"
    using assms sub unfolding broadcast_delivers_def by (metis fst_conv snd_conv)
  then show ?thesis
    using sub by (simp add: mem_subscribe_def Let_def listening_def flip: tx_def)
qed

lemma ps_apply_delivers:
  assumes bc: "broadcast_delivers bc listens" and l: "listening bc listens rx chan msgs chans"
    and room: "length msgs < 1000"
  shows "listening bc listens rx chan (msgs @ messages_on utc chan [ev]) (ps_apply bc utc ev chans)"
proof (cases ev)
  case (Publish c payload t)
  from l obtain tx where tx: "hm_get chans chan = Some tx" "listens rx tx" "bc_pending bc rx tx = msgs"
    by (auto simp: listening_def)
  show ?thesis
  proof (cases "c = chan")
    case True
    let ?m = "\<lparr>msg_channel = chan, msg_payload = payload, msg_timestamp = utc t\<rparr>"
    have "listens rx (snd (bc_send bc ?m tx)) \<and> bc_pending bc rx (snd (bc_send bc ?m tx)) = msgs @ [?m]"
      using bc tx room unfolding broadcast_delivers_def by metis
    with True tx show ?thesis
      by (simp add: Publish mem_publish_def Let_def listening_def)
  next
    case False
    with tx show ?thesis
      by (cases "hm_get chans c") (simp_all add: Publish mem_publish_def Let_def listening_def)
  qed
next
  case (Subscribe names)
  from l obtain tx where tx: "hm_get chans chan = Some tx" "listens rx tx" "bc_pending bc rx tx = msgs"
    by (auto simp: listening_def)
  have "listens rx (snd (bc_subscribe bc tx)) \<and> bc_pending bc rx (snd (bc_subscribe bc tx)) = msgs"
    using bc tx unfolding broadcast_delivers_def by metis
  with tx show ?thesis
    by (auto simp: Subscribe mem_subscribe_def Let_def listening_def split: prod.splits option.splits)
qed

lemma ps_run_delivers:
  assumes bc: "broadcast_delivers bc listens" and "listening bc listens rx chan msgs chans"
    and "length msgs + length (messages_on utc chan evs) \<le> 1000"
  shows "listening bc listens rx chan (msgs @ messages_on utc chan evs) (fold (ps_apply bc utc) evs chans)"
  using assms(2,3)
proof (induction evs arbitrary: msgs chans)
  case (Cons ev evs)
  have split: "messages_on utc chan (ev # evs) = messages_on utc chan [ev] @ messages_on utc chan evs"
    by (cases ev) auto
  show ?case
  proof (cases "length msgs < 1000")
    case True
    from Cons.IH[OF ps_apply_delivers[OF bc Cons.prems(1) True]] Cons.prems(2) show ?thesis
      by (simp add: split)
  next
    case False
    then have "length (messages_on utc chan [ev]) + length (messages_on utc chan evs) = 0"
      using Cons.prems(2) unfolding split length_append by linarith
    then have none: "messages_on utc chan [ev] = []" "messages_on utc chan evs = []" by simp_all
    have "listening bc listens rx chan msgs (ps_apply bc utc ev chans)"
    proof (cases ev)
      case (Publish c payload t)
      with none(1) have "c \<noteq> chan" by (auto split: if_splits)
      with Cons.prems(1) show ?thesis
        by (cases "hm_get chans c") (auto simp: Publish mem_publish_def Let_def listening_def)
    next
      case (Subscribe names)
      then show ?thesis
        using bc Cons.prems(1) unfolding broadcast_delivers_def
        by (auto simp: mem_subscribe_def Let_def listening_def split: prod.splits option.splits)
          (metis snd_conv)+
    qed
    from Cons.IH[OF this] Cons.prems(2) show ?thesis by (simp add: split none)
  qed
qed simp

end
