(* ===== verification/Redis_Pubsub.thy ===== *)
theory Redis_Pubsub
  imports Pubsub_Store "HOL-Library.Sublist"
begin

text \<open>
  The Redis backend of \<^verbatim>\<open>rust/src/pubsub.rs\<close>: one broadcast sender per channel, fed by a
  task with a connection of its own to the server. The tasks, the server and the clients that
  hold receivers interleave freely; their steps carry labels, so that what a subscriber gets can
  be compared with what was published.
\<close>

section \<open>State and methods\<close>

text \<open>\<open>publish\<close> is the \<open>PUBLISH\<close> command of the driver.\<close>

definition redis_publish ::
  "(string \<Rightarrow> bytes \<Rightarrow> ('s, unit) future) \<Rightarrow> string \<Rightarrow> bytes \<Rightarrow> ('s, unit) future" where
  "redis_publish conn_publish chan payload = and_then (conn_publish chan payload) (\<lambda>_. ready ())"

text \<open>
  What survives a call: the map from channel names to senders, and for every sender its channel,
  the task that feeds it, what the server has put on that task's connection and the task has not
  taken, the messages sent on it and the number of receivers. Senders are numbered in the order
  they are made. A payload the server sends may fail to convert.
\<close>

datatype task = Connecting | Streaming | Ended

record forwarders =
  fw_senders :: "(string, nat) hashmap"
  fw_next :: nat
  fw_channel :: "nat \<Rightarrow> string"
  fw_task :: "nat \<Rightarrow> task"
  fw_inbox :: "nat \<Rightarrow> bytes option list"
  fw_sent :: "nat \<Rightarrow> message list"
  fw_receivers :: "nat \<Rightarrow> nat"

definition no_forwarders :: forwarders where
  "no_forwarders = \<lparr>fw_senders = [], fw_next = 0, fw_channel = (\<lambda>_. []), fw_task = (\<lambda>_. Ended),
     fw_inbox = (\<lambda>_. []), fw_sent = (\<lambda>_. []), fw_receivers = (\<lambda>_. 0)\<rparr>"

text \<open>\<open>subscribe\<close>: the sender the new receiver listens to, and the state.\<close>

definition redis_subscribe :: "string list \<Rightarrow> forwarders \<Rightarrow> nat \<times> forwarders" where
  "redis_subscribe names s =
     (let chan = first_channel names in
      case hm_get (fw_senders s) chan of
        Some tx \<Rightarrow> (tx, s\<lparr>fw_receivers := (fw_receivers s)(tx := fw_receivers s tx + 1)\<rparr>)
      | None \<Rightarrow>
          let tx = fw_next s
          in (tx, s\<lparr>fw_senders := hm_insert chan tx (fw_senders s), fw_next := tx + 1,
                fw_channel := (fw_channel s)(tx := chan), fw_task := (fw_task s)(tx := Connecting),
                fw_inbox := (fw_inbox s)(tx := []), fw_sent := (fw_sent s)(tx := []),
                fw_receivers := (fw_receivers s)(tx := 1)\<rparr>))"

definition redis_unsubscribe :: "string list \<Rightarrow> forwarders \<Rightarrow> forwarders" where
  "redis_unsubscribe names s = s\<lparr>fw_senders := fold hm_remove names (fw_senders s)\<rparr>"

text \<open>The store as the client has it; the driver's connection is a parameter.\<close>

definition redis_pubsub ::
  "(string \<Rightarrow> bytes \<Rightarrow> (forwarders, unit) future) \<Rightarrow> (forwarders, string) future \<Rightarrow> duration
     \<Rightarrow> (forwarders, nat) pubsub_store" where
  "redis_pubsub conn_publish ping lat =
     \<lparr>ps_publish = redis_publish conn_publish,
      ps_subscribe = (\<lambda>names. atomic lat (\<lambda>s. Some (apfst Inr (redis_subscribe names s)))),
      ps_unsubscribe = (\<lambda>names. atomic lat (\<lambda>s. Some (Inr (), redis_unsubscribe names s))),
      ps_is_healthy = redis_is_healthy ''pubsub'' ping\<rparr>"

text \<open>\<open>RedisPubSubStore::new\<close>: a connection, the client the tasks connect with, and no channel.\<close>

definition redis_pubsub_new ::
  "(string \<Rightarrow> 'client result) \<Rightarrow> ('client \<Rightarrow> 'conn result) \<Rightarrow> string
     \<Rightarrow> ('conn \<times> 'client \<times> forwarders) result" where
  "redis_pubsub_new client_open connection_manager url =
     (case client_open url of
        Inl err \<Rightarrow> Inl err
      | Inr client \<Rightarrow>
          (case connection_manager client of
             Inl err \<Rightarrow> Inl err
           | Inr conn \<Rightarrow> Inr (conn, client, no_forwarders)))"

section \<open>Steps\<close>

text \<open>
  What a forwarder makes of a message from the server. It sends it when somebody listens, and
  ends otherwise; it also ends when it cannot connect or subscribe and when its stream ends. The
  server puts a published message on the connections that are subscribed to its channel. A
  receiver is dropped by the client that holds it.
\<close>

definition payload_of :: "bytes option \<Rightarrow> bytes" where
  "payload_of payload = (case payload of Some p \<Rightarrow> p | None \<Rightarrow> [])"

definition forwarded_message :: "string \<Rightarrow> bytes option \<Rightarrow> int \<Rightarrow> message" where
  "forwarded_message ch_str payload now =
     \<lparr>msg_channel = ch_str, msg_payload = payload_of payload, msg_timestamp = now\<rparr>"

datatype fw_event = Subscribed "string list" | Unsubscribed "string list" | Dropped nat
  | Connected nat | Refused nat | Published string "bytes option" | Forwarded nat int
  | Unheard nat | StreamEnded nat

inductive forwarder_step :: "forwarders \<Rightarrow> fw_event \<Rightarrow> forwarders \<Rightarrow> bool" where
  subscribed: "forwarder_step s (Subscribed names) (snd (redis_subscribe names s))"
| unsubscribed: "forwarder_step s (Unsubscribed names) (redis_unsubscribe names s)"
| dropped: "0 < fw_receivers s tx \<Longrightarrow>
    forwarder_step s (Dropped tx) (s\<lparr>fw_receivers := (fw_receivers s)(tx := fw_receivers s tx - 1)\<rparr>)"
| connected: "fw_task s tx = Connecting \<Longrightarrow>
    forwarder_step s (Connected tx) (s\<lparr>fw_task := (fw_task s)(tx := Streaming)\<rparr>)"
| refused: "fw_task s tx = Connecting \<Longrightarrow>
    forwarder_step s (Refused tx) (s\<lparr>fw_task := (fw_task s)(tx := Ended)\<rparr>)"
| published: "forwarder_step s (Published chan payload) (s\<lparr>fw_inbox := (\<lambda>tx.
    if fw_task s tx = Streaming \<and> fw_channel s tx = chan then fw_inbox s tx @ [payload] else fw_inbox s tx)\<rparr>)"
| forwarded: "fw_task s tx = Streaming \<Longrightarrow> fw_inbox s tx = payload # rest \<Longrightarrow> 0 < fw_receivers s tx \<Longrightarrow>
    forwarder_step s (Forwarded tx now) (s\<lparr>fw_inbox := (fw_inbox s)(tx := rest),
      fw_sent := (fw_sent s)(tx := fw_sent s tx @ [forwarded_message (fw_channel s tx) payload now])\<rparr>)"
| unheard: "fw_task s tx = Streaming \<Longrightarrow> fw_inbox s tx = payload # rest \<Longrightarrow> fw_receivers s tx = 0 \<Longrightarrow>
    forwarder_step s (Unheard tx) (s\<lparr>fw_inbox := (fw_inbox s)(tx := rest), fw_task := (fw_task s)(tx := Ended)\<rparr>)"
| stream_ended: "fw_task s tx = Streaming \<Longrightarrow>
    forwarder_step s (StreamEnded tx) (s\<lparr>fw_task := (fw_task s)(tx := Ended)\<rparr>)"

inductive_cases forwarder_stepE: "forwarder_step s ev t"

inductive_simps forwarder_step_simps [simp]:
  "forwarder_step s (Subscribed names) t" "forwarder_step s (Unsubscribed names) t"
  "forwarder_step s (Dropped tx) t" "forwarder_step s (Connected tx) t" "forwarder_step s (Refused tx) t"
  "forwarder_step s (Published chan payload) t" "forwarder_step s (Forwarded tx now) t"
  "forwarder_step s (Unheard tx) t" "forwarder_step s (StreamEnded tx) t"

inductive forwarder_run :: "forwarders \<Rightarrow> fw_event list \<Rightarrow> forwarders \<Rightarrow> bool" where
  run_stop: "forwarder_run s [] s"
| run_step: "forwarder_step s ev s' \<Longrightarrow> forwarder_run s' evs t \<Longrightarrow> forwarder_run s (ev # evs) t"

inductive_simps forwarder_run_simps [simp]:
  "forwarder_run s [] t" "forwarder_run s (ev # evs) t"

section \<open>The invariant\<close>

text \<open>
  In every reachable state a name in the map leads to a sender of that channel, a sender has
  sent messages of its own channel only, and a task that is not connected has received nothing.
\<close>

definition forwarders_ok :: "forwarders \<Rightarrow> bool" where
  "forwarders_ok s \<longleftrightarrow>
     (\<forall>chan tx. hm_get (fw_senders s) chan = Some tx \<longrightarrow> tx < fw_next s \<and> fw_channel s tx = chan)
     \<and> (\<forall>tx msg. msg \<in> set (fw_sent s tx) \<longrightarrow> msg_channel msg = fw_channel s tx)
     \<and> (\<forall>tx. fw_task s tx = Connecting \<longrightarrow> fw_inbox s tx = [] \<and> fw_sent s tx = [])"

lemma hm_get_fold_remove:
  "hm_get (fold hm_remove names m) chan = (if chan \<in> set names then None else hm_get m chan)"
  by (induction names arbitrary: m) auto

lemma forwarders_ok_step:
  assumes "forwarder_step s ev t" and "forwarders_ok s"
  shows "forwarders_ok t"
  using assms
  by (cases rule: forwarder_step.cases)
    (auto simp: forwarders_ok_def redis_subscribe_def redis_unsubscribe_def Let_def hm_get_fold_remove
      forwarded_message_def split: option.splits if_splits, fastforce+)

lemma forwarders_ok_run: "forwarder_run s evs t \<Longrightarrow> forwarders_ok s \<Longrightarrow> forwarders_ok t"
  by (induction rule: forwarder_run.induct) (blast intro: forwarders_ok_step)+

lemma no_forwarders_ok: "forwarders_ok no_forwarders"
  by (simp add: forwarders_ok_def no_forwarders_def)

lemmas reachable_forwarders_ok = forwarders_ok_run[OF _ no_forwarders_ok]

lemma subscribed_sender:
  assumes "redis_subscribe names s = (tx, t)" and "forwarders_ok s"
  shows "tx < fw_next t \<and> fw_channel t tx = first_channel names \<and> 0 < fw_receivers t tx"
  using assms by (auto simp: redis_subscribe_def Let_def forwarders_ok_def split: option.splits)

lemma subscribed_ok:
  assumes "redis_subscribe names s = (tx, t)" and "forwarders_ok s"
  shows "forwarders_ok t"
  using forwarders_ok_step[OF subscribed[of s names] assms(2)] assms(1) by simp

section \<open>What a subscriber gets\<close>

text \<open>
  The messages published on a channel, and the part of a run in which the task of a sender is
  subscribed at the server.
\<close>

fun published_on :: "string \<Rightarrow> fw_event list \<Rightarrow> bytes list" where
  "published_on chan [] = []"
| "published_on chan (Published c payload # evs) =
     (if c = chan then payload_of payload # published_on chan evs else published_on chan evs)"
| "published_on chan (_ # evs) = published_on chan evs"

fun audible :: "nat \<Rightarrow> task \<Rightarrow> fw_event list \<Rightarrow> fw_event list" where
  "audible tx Streaming evs = evs"
| "audible tx Connecting [] = []"
| "audible tx Connecting (ev # evs) = (if ev = Connected tx then evs else audible tx Connecting evs)"
| "audible tx Ended evs = []"

text \<open>What a task has passed on or still has to.\<close>

definition heard :: "forwarders \<Rightarrow> nat \<Rightarrow> bytes list" where
  "heard s tx = map msg_payload (fw_sent s tx) @ map payload_of (fw_inbox s tx)"

text \<open>A run in which the connection of a task does not fail and one of \<open>n\<close> receivers is kept.\<close>

definition undisturbed :: "nat \<Rightarrow> nat \<Rightarrow> fw_event list \<Rightarrow> bool" where
  "undisturbed tx n evs \<longleftrightarrow>
     Refused tx \<notin> set evs \<and> StreamEnded tx \<notin> set evs \<and> count_list evs (Dropped tx) < n"

lemma undisturbed_Cons:
  "undisturbed tx n (ev # evs) \<longleftrightarrow> ev \<noteq> Refused tx \<and> ev \<noteq> StreamEnded tx
     \<and> (if ev = Dropped tx then 0 < n \<and> undisturbed tx (n - 1) evs else undisturbed tx n evs)"
  by (auto simp: undisturbed_def)

lemma undisturbed_mono: "undisturbed tx n evs \<Longrightarrow> n \<le> m \<Longrightarrow> undisturbed tx m evs"
  by (simp add: undisturbed_def)

lemma heard_step:
  assumes "forwarder_step s ev s'" and "tx < fw_next s" and "fw_task s tx \<noteq> Ended"
    and "undisturbed tx (fw_receivers s tx) (ev # evs)"
  shows "fw_task s' tx \<noteq> Ended" and "undisturbed tx (fw_receivers s' tx) evs"
    and "tx < fw_next s'" and "fw_channel s' tx = fw_channel s tx"
    and "prefix (fw_sent s tx) (fw_sent s' tx)"
    and "heard s' tx @ published_on (fw_channel s tx) (audible tx (fw_task s' tx) evs)
      = heard s tx @ published_on (fw_channel s tx) (audible tx (fw_task s tx) (ev # evs))"
proof -
  have held: "0 < fw_receivers s tx" using assms(4) by (simp add: undisturbed_def)
  then have "fw_task s' tx \<noteq> Ended \<and> undisturbed tx (fw_receivers s' tx) evs \<and> tx < fw_next s'
    \<and> fw_channel s' tx = fw_channel s tx \<and> prefix (fw_sent s tx) (fw_sent s' tx)"
    using assms
    by (cases ev) (auto simp: undisturbed_Cons redis_subscribe_def redis_unsubscribe_def Let_def
        intro: undisturbed_mono split: option.splits if_splits)
  then show "fw_task s' tx \<noteq> Ended" "undisturbed tx (fw_receivers s' tx) evs" "tx < fw_next s'"
    "fw_channel s' tx = fw_channel s tx" "prefix (fw_sent s tx) (fw_sent s' tx)" by simp_all
  show "heard s' tx @ published_on (fw_channel s tx) (audible tx (fw_task s' tx) evs)
      = heard s tx @ published_on (fw_channel s tx) (audible tx (fw_task s tx) (ev # evs))"
    using assms held
    by (cases ev; cases "fw_task s tx") (auto simp: undisturbed_Cons heard_def redis_subscribe_def
        redis_unsubscribe_def Let_def forwarded_message_def split: option.splits if_splits)
qed

lemma heard_run:
  assumes "forwarder_run s evs t" and "tx < fw_next s" and "fw_task s tx \<noteq> Ended"
    and "undisturbed tx (fw_receivers s tx) evs"
  shows "fw_task t tx \<noteq> Ended \<and> 0 < fw_receivers t tx \<and> fw_channel t tx = fw_channel s tx
    \<and> prefix (fw_sent s tx) (fw_sent t tx)
    \<and> heard t tx = heard s tx @ published_on (fw_channel s tx) (audible tx (fw_task s tx) evs)"
  using assms
proof (induction rule: forwarder_run.induct)
  case (run_stop s)
  then show ?case by (cases "fw_task s tx") (simp_all add: undisturbed_def)
next
  case (run_step s ev s' evs t)
  note step = heard_step[OF run_step.hyps(1) run_step.prems]
  from run_step.IH[OF step(3,1,2)] step(4,5,6) show ?case by (auto intro: prefix_order.trans)
qed

text \<open>A task that streams to somebody can pass on all it has received.\<close>

lemma inbox_drains:
  assumes "fw_task s tx = Streaming" and "0 < fw_receivers s tx"
  shows "\<exists>t. forwarder_run s (map (\<lambda>_. Forwarded tx now) (fw_inbox s tx)) t \<and> fw_inbox t tx = []"
  using assms
proof (induction "fw_inbox s tx" arbitrary: s)
  case (Cons payload rest)
  let ?s' = "s\<lparr>fw_inbox := (fw_inbox s)(tx := rest),
      fw_sent := (fw_sent s)(tx := fw_sent s tx @ [forwarded_message (fw_channel s tx) payload now])\<rparr>"
  from Cons.hyps(1)[of ?s'] Cons.prems
  obtain t where "forwarder_run ?s' (map (\<lambda>_. Forwarded tx now) rest) t" "fw_inbox t tx = []" by auto
  moreover have "forwarder_step s (Forwarded tx now) ?s'"
    using Cons.prems Cons.hyps(2)[symmetric] by (intro forwarded)
  ultimately show ?case using Cons.hyps(2)[symmetric] by (auto intro: run_step simp del: forwarder_step_simps)
qed auto

text \<open>
  A receiver gets the messages sent after it was made: those on the connection when it was made,
  and those published while the task is subscribed at the server.
\<close>

lemma subscriber_run:
  assumes "forwarders_ok s" and "redis_subscribe names s = (tx, s1)" and "fw_task s1 tx \<noteq> Ended"
    and "forwarder_run s1 evs t" and "undisturbed tx (fw_receivers s1 tx) evs"
  shows "\<exists>new. fw_sent t tx = fw_sent s1 tx @ new
    \<and> map msg_payload new @ map payload_of (fw_inbox t tx)
      = map payload_of (fw_inbox s1 tx)
        @ published_on (first_channel names) (audible tx (fw_task s1 tx) evs)
    \<and> (\<forall>msg \<in> set new. msg_channel msg = first_channel names)
    \<and> (\<exists>n u. forwarder_run t (replicate n (Forwarded tx now)) u \<and> fw_inbox u tx = [])"
proof -
  note s1 = subscribed_sender[OF assms(2,1)] and ok1 = subscribed_ok[OF assms(2,1)]
  note run = heard_run[OF assms(4) _ assms(3,5)]
  from run s1 obtain new where new: "fw_sent t tx = fw_sent s1 tx @ new" by (auto simp: prefix_def)
  have okt: "forwarders_ok t" using forwarders_ok_run[OF assms(4) ok1] .
  have chan: "\<forall>msg \<in> set new. msg_channel msg = first_channel names"
  proof
    fix msg assume "msg \<in> set new"
    then have "msg_channel msg = fw_channel t tx" using okt new by (simp add: forwarders_ok_def)
    with run s1 show "msg_channel msg = first_channel names" by simp
  qed
  have "\<exists>n u. forwarder_run t (replicate n (Forwarded tx now)) u \<and> fw_inbox u tx = []"
  proof (cases "fw_task t tx")
    case Connecting
    with okt have "fw_inbox t tx = []" by (simp add: forwarders_ok_def)
    then show ?thesis by (intro exI[of _ 0] exI[of _ t]) simp
  next
    case Streaming
    with run s1 inbox_drains[of t tx now] show ?thesis by (auto simp: map_replicate_const)
  next
    case Ended
    with run s1 show ?thesis by simp
  qed
  with run s1 new chan show ?thesis by (intro exI[of _ new]) (simp add: heard_def)
qed

section \<open>Dead subscriptions\<close>

text \<open>A sender whose task has ended stays without one, and nothing is sent on it again.\<close>

lemma forwarder_stays_dead:
  assumes "forwarder_step s ev t" and "fw_task s tx = Ended" and "tx < fw_next s"
  shows "fw_task t tx = Ended \<and> tx < fw_next t \<and> fw_sent t tx = fw_sent s tx"
  using assms
  by (cases ev) (auto simp: redis_subscribe_def redis_unsubscribe_def Let_def split: option.splits if_splits)

lemma forwarder_stays_dead_run:
  assumes "forwarder_run s evs t" and "fw_task s tx = Ended" and "tx < fw_next s"
  shows "fw_task t tx = Ended \<and> tx < fw_next t \<and> fw_sent t tx = fw_sent s tx"
  using assms by (induction rule: forwarder_run.induct) (auto dest: forwarder_stays_dead)

text \<open>
  After one subscriber has come and gone and a message was lost on it, the map still holds the
  sender: the next subscriber of the channel gets a receiver nothing feeds.
\<close>

lemma stale_sender_reachable:
  "\<exists>evs s. forwarder_run no_forwarders evs s
     \<and> fst (redis_subscribe [chan] s) = 0 \<and> fw_task (snd (redis_subscribe [chan] s)) 0 = Ended
     \<and> fw_receivers (snd (redis_subscribe [chan] s)) 0 = 1 \<and> 0 < fw_next (snd (redis_subscribe [chan] s))"
  by (intro exI[of _ "[Subscribed [chan], Connected 0, Dropped 0, Published chan (Some []), Unheard 0]"])
    (auto simp: redis_subscribe_def no_forwarders_def first_channel_def hm_insert_def)

end
