(* ===== verification/Relational_Store.thy ===== *)
theory Relational_Store
  imports Async_Ops Health_Probe
begin

text \<open>
  The relational contract: the trait, the in-memory stand-in and the PostgreSQL backend
  (\<^verbatim>\<open>rust/src/relational.rs\<close>) over a connection pool that is a parameter, and the
  instrumented and the resilient wrappers.
\<close>

type_synonym param = bytes

record rows =
  rows_columns :: "string list"
  rows_data :: "bytes list list"

record migration =
  version :: string
  up_sql :: string
  down_sql :: string

record 's relational_store =
  rs_query :: "string \<Rightarrow> param list \<Rightarrow> ('s, rows) future"
  rs_execute :: "string \<Rightarrow> param list \<Rightarrow> ('s, nat) future"
  rs_migrate :: "migration list \<Rightarrow> ('s, unit) future"
  rs_is_healthy :: "('s, health_status) future"

section \<open>The in-memory store\<close>

text \<open>It holds nothing and answers every call with an empty success.\<close>

definition memory_relational :: "duration \<Rightarrow> 's relational_store" where
  "memory_relational lat =
     \<lparr>rs_query = (\<lambda>sql params.
        atomic lat (\<lambda>s. Some (Inr \<lparr>rows_columns = [], rows_data = []\<rparr>, s))),
      rs_execute = (\<lambda>sql params. atomic lat (\<lambda>s. Some (Inr 0, s))),
      rs_migrate = (\<lambda>migrations. atomic lat (\<lambda>s. Some (Inr (), s))),
      rs_is_healthy = memory_is_healthy ''relational'' lat\<rparr>"

section \<open>The PostgreSQL store\<close>

text \<open>
  What the store uses of a pool and of a row. A cell tells which of the four conversions the
  driver accepts. A transaction that is dropped without a commit is rolled back.
\<close>

record pg_cell =
  try_string :: "bytes option"
  try_bytes :: "bytes option"
  try_i32 :: "int option"
  try_i64 :: "int option"

type_synonym pg_row = "(string \<times> pg_cell) list"

record 's pg_pool =
  pg_fetch_all :: "string \<Rightarrow> ('s, pg_row list) future"
  pg_execute :: "string \<Rightarrow> ('s, nat) future"
  pg_fetch_optional :: "string \<Rightarrow> string list \<Rightarrow> ('s, string option) future"
  pg_begin :: "('s, unit) future"
  pg_tx_execute :: "string \<Rightarrow> string list \<Rightarrow> ('s, nat) future"
  pg_tx_commit :: "('s, unit) future"
  pg_tx_rollback :: "('s, unit) future"

text \<open>\<open>to_string().into_bytes()\<close> of an integer.\<close>

fun digits :: "nat \<Rightarrow> string" where
  "digits n = (if n < 10 then [char_of (48 + n)] else digits (n div 10) @ [char_of (48 + n mod 10)])"

definition int_to_bytes :: "int \<Rightarrow> bytes" where
  "int_to_bytes i =
     map of_char (if i < 0 then CHR ''-'' # digits (nat (- i)) else digits (nat i))"

definition cell_bytes :: "pg_row \<Rightarrow> nat \<Rightarrow> bytes" where
  "cell_bytes row i =
     (if length row \<le> i then []
      else let c = snd (row ! i) in
        case try_string c of Some s \<Rightarrow> s
        | None \<Rightarrow>
            (case try_bytes c of Some b \<Rightarrow> b
             | None \<Rightarrow>
                 (case try_i32 c of Some n \<Rightarrow> int_to_bytes n
                  | None \<Rightarrow> (case try_i64 c of Some n \<Rightarrow> int_to_bytes n | None \<Rightarrow> []))))"

definition rows_of :: "pg_row list \<Rightarrow> rows" where
  "rows_of rs =
     (let result_columns = (case rs of [] \<Rightarrow> [] | first_row # _ \<Rightarrow> map fst first_row)
      in \<lparr>rows_columns = result_columns,
          rows_data = map (\<lambda>row. map (cell_bytes row) [0..<length result_columns]) rs\<rparr>)"

definition pg_query :: "'s pg_pool \<Rightarrow> string \<Rightarrow> param list \<Rightarrow> ('s, rows) future" where
  "pg_query pool sql params = and_then (pg_fetch_all pool sql) (\<lambda>rs. ready (rows_of rs))"

definition pg_store_execute :: "'s pg_pool \<Rightarrow> string \<Rightarrow> param list \<Rightarrow> ('s, nat) future" where
  "pg_store_execute pool sql params = pg_execute pool sql"

definition create_migrations_sql :: string where
  "create_migrations_sql =
     [CHR 10] @ ''            CREATE TABLE IF NOT EXISTS schema_migrations ('' @
     [CHR 10] @ ''                version VARCHAR(255) PRIMARY KEY,'' @
     [CHR 10] @ ''                applied_at TIMESTAMPTZ NOT NULL DEFAULT NOW()'' @
     [CHR 10] @ ''            );'' @ [CHR 10] @ ''            ''"

definition select_version_sql :: string where
  "select_version_sql = ''SELECT version FROM schema_migrations WHERE version = $1''"

definition insert_version_sql :: string where
  "insert_version_sql = ''INSERT INTO schema_migrations (version) VALUES ($1)''"

text \<open>A step of a transaction: on an error the transaction is dropped.\<close>

definition tx_step ::
  "'s pg_pool \<Rightarrow> ('s, 'a) future \<Rightarrow> ('a \<Rightarrow> ('s, 'b) future) \<Rightarrow> ('s, 'b) future" where
  "tx_step pool fut k =
     match_then fut (\<lambda>r. case r of
        Inl err \<Rightarrow> ignoring (pg_tx_rollback pool) (bail err)
      | Inr v \<Rightarrow> k v)"

definition apply_migration :: "'s pg_pool \<Rightarrow> migration \<Rightarrow> ('s, unit) future" where
  "apply_migration pool m =
     and_then (pg_fetch_optional pool select_version_sql [version m]) (\<lambda>applied.
       if applied = None then
         and_then (pg_begin pool) (\<lambda>_.
           tx_step pool (pg_tx_execute pool (up_sql m) []) (\<lambda>_.
             tx_step pool (pg_tx_execute pool insert_version_sql [version m]) (\<lambda>_.
               pg_tx_commit pool)))
       else ready ())"

fun apply_migrations :: "'s pg_pool \<Rightarrow> migration list \<Rightarrow> ('s, unit) future" where
  "apply_migrations pool [] = ready ()"
| "apply_migrations pool (m # ms) = and_then (apply_migration pool m) (\<lambda>_. apply_migrations pool ms)"

definition pg_migrate :: "'s pg_pool \<Rightarrow> migration list \<Rightarrow> ('s, unit) future" where
  "pg_migrate pool migrations =
     and_then (pg_execute pool create_migrations_sql) (\<lambda>_. apply_migrations pool migrations)"

definition postgres_relational :: "'s pg_pool \<Rightarrow> 's relational_store" where
  "postgres_relational pool =
     \<lparr>rs_query = pg_query pool,
      rs_execute = pg_store_execute pool,
      rs_migrate = pg_migrate pool,
      rs_is_healthy = postgres_is_healthy (pg_execute pool ''SELECT 1'')\<rparr>"

text \<open>\<open>PostgresRelationalStore::new\<close>: a pool of at most twenty connections.\<close>

definition postgres_new :: "(nat \<Rightarrow> string \<Rightarrow> 's pg_pool result) \<Rightarrow> string \<Rightarrow> 's relational_store result" where
  "postgres_new pool_connect url =
     (case pool_connect 20 url of Inl err \<Rightarrow> Inl err | Inr pool \<Rightarrow> Inr (postgres_relational pool))"

section \<open>The instrumented store\<close>

definition instrumented_relational :: "'s relational_store \<Rightarrow> string \<Rightarrow> 's relational_store" where
  "instrumented_relational inner backend =
     \<lparr>rs_query = (\<lambda>sql params.
        instrumented RelationalQueryDuration ''relational'' ''query'' backend (rs_query inner sql params)),
      rs_execute = (\<lambda>sql params.
        instrumented RelationalQueryDuration ''relational'' ''execute'' backend
          (rs_execute inner sql params)),
      rs_migrate = (\<lambda>migrations.
        instrumented RelationalQueryDuration ''relational'' ''migrate'' backend
          (rs_migrate inner migrations)),
      rs_is_healthy = instrumented_health ''relational'' backend (rs_is_healthy inner)\<rparr>"

section \<open>The resilient store\<close>

definition resilient_query ::
  "bool \<Rightarrow> resilience_config \<Rightarrow> string \<Rightarrow> 's relational_store \<Rightarrow> string \<Rightarrow> param list
     \<Rightarrow> ('s, rows) guarded_call" where
  "resilient_query oc cfg backend s sql params =
     execute oc cfg ''relational'' backend ''query'' (rs_query s sql params)"

definition resilient_execute ::
  "bool \<Rightarrow> resilience_config \<Rightarrow> string \<Rightarrow> 's relational_store \<Rightarrow> string \<Rightarrow> param list
     \<Rightarrow> ('s, nat) guarded_call" where
  "resilient_execute oc cfg backend s sql params =
     execute oc cfg ''relational'' backend ''execute'' (rs_execute s sql params)"

definition resilient_migrate ::
  "bool \<Rightarrow> resilience_config \<Rightarrow> string \<Rightarrow> 's relational_store \<Rightarrow> migration list
     \<Rightarrow> ('s, unit) guarded_call" where
  "resilient_migrate oc cfg backend s migrations =
     execute oc cfg ''relational'' backend ''migrate'' (rs_migrate s migrations)"

lemmas resilient_relational_defs = resilient_query_def resilient_execute_def resilient_migrate_def

section \<open>What a migration run does\<close>

text \<open>
  The part of a database that migrations touch: the applied versions with the statements run
  for them, oldest first, and the statements of the open transaction.
\<close>

record pg_view =
  applied_log :: "(string \<times> string) list"
  open_tx :: "(string \<times> string list) list"

definition versions :: "pg_view \<Rightarrow> string set" where
  "versions v = fst ` set (applied_log v)"

text \<open>
  Documented behaviour of the pool, for a list of migrations whose statements succeed: a
  version is found when it was inserted by a committed transaction, and statements of a
  transaction take effect together when it commits.
\<close>

fun tx_log :: "(string \<times> string list) list \<Rightarrow> (string \<times> string) list" where
  "tx_log ((sql, []) # (ins, [v]) # rest) = (if ins = insert_version_sql then (v, sql) # tx_log rest else [])"
| "tx_log _ = []"

definition pool_runs :: "'s pg_pool \<Rightarrow> migration list \<Rightarrow> ('s \<Rightarrow> bool) \<Rightarrow> ('s \<Rightarrow> pg_view) \<Rightarrow> duration \<Rightarrow> bool" where
  "pool_runs pool ms ok \<alpha> L \<longleftrightarrow>
     (\<exists>n. serves ok \<alpha> L (pg_execute pool create_migrations_sql) (\<lambda>x. (n, x)))
     \<and> (\<forall>v. serves ok \<alpha> L (pg_fetch_optional pool select_version_sql [v])
          (\<lambda>x. (if v \<in> versions x then Some v else None, x)))
     \<and> serves ok \<alpha> L (pg_begin pool) (\<lambda>x. ((), x\<lparr>open_tx := []\<rparr>))
     \<and> (\<forall>m \<in> set ms. \<exists>n. serves ok \<alpha> L (pg_tx_execute pool (up_sql m) [])
          (\<lambda>x. (n, x\<lparr>open_tx := open_tx x @ [(up_sql m, [])]\<rparr>)))
     \<and> (\<forall>v. \<exists>n. serves ok \<alpha> L (pg_tx_execute pool insert_version_sql [v])
          (\<lambda>x. (n, x\<lparr>open_tx := open_tx x @ [(insert_version_sql, [v])]\<rparr>)))
     \<and> serves ok \<alpha> L (pg_tx_commit pool)
          (\<lambda>x. ((), x\<lparr>applied_log := applied_log x @ tx_log (open_tx x), open_tx := []\<rparr>))"

definition migrate_one :: "migration \<Rightarrow> pg_view \<Rightarrow> pg_view" where
  "migrate_one m x =
     (if version m \<in> versions x then x
      else x\<lparr>applied_log := applied_log x @ [(version m, up_sql m)], open_tx := []\<rparr>)"

definition migrate_all :: "migration list \<Rightarrow> pg_view \<Rightarrow> pg_view" where
  "migrate_all ms x = fold migrate_one ms x"

lemma serves_tx_step:
  assumes "serves ok \<alpha> L fut g" and "\<And>v. serves ok \<alpha> M (k v) (h v)"
  shows "serves ok \<alpha> (L + M) (tx_step pool fut k) (\<lambda>x. h (fst (g x)) (snd (g x)))"
proof (rule servesI)
  fix dl and e :: "'a env"
  assume ok: "ok (store e)" and dl: "in_time (L + M) dl"
  have "in_time L dl" using dl by (auto simp: in_time_def split: option.splits)
  with assms(1) ok obtain e1 where run: "fut dl e = Finished (Inr (fst (g (\<alpha> (store e))))) e1"
    by (rule servesE)
  have "tx_step pool fut k dl e = and_then fut k dl e"
    by (simp add: tx_step_def and_then_def match_then_def run)
  moreover obtain e' where "and_then fut k dl e
        = Finished (Inr (fst (h (fst (g (\<alpha> (store e)))) (snd (g (\<alpha> (store e))))))) e'"
    "\<alpha> (store e') = snd (h (fst (g (\<alpha> (store e)))) (snd (g (\<alpha> (store e)))))" "ok (store e')"
    "clock e \<le> clock e'" "clock e' \<le> clock e + (L + M)"
    using serves_and_then[OF assms] ok dl by (rule servesE)
  ultimately show "\<exists>e'. tx_step pool fut k dl e
        = Finished (Inr (fst (h (fst (g (\<alpha> (store e)))) (snd (g (\<alpha> (store e))))))) e'
      \<and> \<alpha> (store e') = snd (h (fst (g (\<alpha> (store e)))) (snd (g (\<alpha> (store e)))))
      \<and> ok (store e') \<and> clock e \<le> clock e' \<and> clock e' \<le> clock e + (L + M)"
    by auto
qed

lemma apply_migration_serves:
  assumes runs: "pool_runs pool ms ok \<alpha> L" and "m \<in> set ms"
  shows "serves ok \<alpha> (5 * L) (apply_migration pool m) (\<lambda>x. ((), migrate_one m x))"
proof -
  note r = runs[unfolded pool_runs_def]
  have sel: "serves ok \<alpha> L (pg_fetch_optional pool select_version_sql [version m])
      (\<lambda>x. (if version m \<in> versions x then Some (version m) else None, x))"
    and beg: "serves ok \<alpha> L (pg_begin pool) (\<lambda>x. ((), x\<lparr>open_tx := []\<rparr>))"
    and com: "serves ok \<alpha> L (pg_tx_commit pool)
      (\<lambda>x. ((), x\<lparr>applied_log := applied_log x @ tx_log (open_tx x), open_tx := []\<rparr>))"
    using r by simp_all
  have "\<exists>n. serves ok \<alpha> L (pg_tx_execute pool (up_sql m) [])
      (\<lambda>x. (n, x\<lparr>open_tx := open_tx x @ [(up_sql m, [])]\<rparr>))"
    using r assms(2) by simp
  then obtain n where up: "serves ok \<alpha> L (pg_tx_execute pool (up_sql m) [])
      (\<lambda>x. (n, x\<lparr>open_tx := open_tx x @ [(up_sql m, [])]\<rparr>))" ..
  have "\<exists>n. serves ok \<alpha> L (pg_tx_execute pool insert_version_sql [version m])
      (\<lambda>x. (n, x\<lparr>open_tx := open_tx x @ [(insert_version_sql, [version m])]\<rparr>))"
    using r by simp
  then obtain n' where ins: "serves ok \<alpha> L (pg_tx_execute pool insert_version_sql [version m])
      (\<lambda>x. (n', x\<lparr>open_tx := open_tx x @ [(insert_version_sql, [version m])]\<rparr>))" ..
  define body where "body = and_then (pg_begin pool) (\<lambda>_.
    tx_step pool (pg_tx_execute pool (up_sql m) []) (\<lambda>_.
      tx_step pool (pg_tx_execute pool insert_version_sql [version m]) (\<lambda>_. pg_tx_commit pool)))"
  have "serves ok \<alpha> (L + (L + (L + L))) body (\<lambda>x. ((),
      x\<lparr>applied_log := applied_log x @ [(version m, up_sql m)], open_tx := []\<rparr>))"
    using serves_and_then[OF beg serves_tx_step[OF up serves_tx_step[OF ins com]]]
    by (simp add: body_def)
  then have "serves ok \<alpha> (4 * L) body (\<lambda>x. ((),
      x\<lparr>applied_log := applied_log x @ [(version m, up_sql m)], open_tx := []\<rparr>))"
    by (rule serves_weaken) simp
  moreover have "serves ok \<alpha> (4 * L) (ready ()) (\<lambda>x. ((), x))"
    using serves_ready by (rule serves_weaken) simp
  ultimately have rest: "serves ok \<alpha> (4 * L) (if v = None then body else ready ())
      (\<lambda>x. if v = None then ((), x\<lparr>applied_log := applied_log x @ [(version m, up_sql m)], open_tx := []\<rparr>)
        else ((), x))"
    for v :: "string option" by (cases v) simp_all
  have "serves ok \<alpha> (L + 4 * L) (apply_migration pool m) (\<lambda>x. ((), migrate_one m x))"
    (is "serves _ _ _ _ ?g")
  proof -
    let ?h = "\<lambda>x. if fst (if version m \<in> versions x then Some (version m) else None, x) = None
      then ((), (snd (if version m \<in> versions x then Some (version m) else None, x))
        \<lparr>applied_log := applied_log (snd (if version m \<in> versions x then Some (version m) else None, x))
           @ [(version m, up_sql m)], open_tx := []\<rparr>)
      else ((), snd (if version m \<in> versions x then Some (version m) else None, x))"
    have "?h = ?g" by (rule ext) (simp add: migrate_one_def)
    moreover have "serves ok \<alpha> (L + 4 * L) (apply_migration pool m) ?h"
      unfolding apply_migration_def body_def[symmetric] using serves_and_then[OF sel rest] .
    ultimately show ?thesis by (simp only:)
  qed
  then show ?thesis by (rule serves_weaken) simp
qed

lemma apply_migrations_serves:
  assumes "pool_runs pool ms ok \<alpha> L" and "set ns \<subseteq> set ms"
  shows "serves ok \<alpha> (5 * L * length ns) (apply_migrations pool ns) (\<lambda>x. ((), migrate_all ns x))"
  using assms(2)
proof (induction ns)
  case Nil
  then show ?case using serves_ready[of ok \<alpha> "()"] by (simp add: migrate_all_def)
next
  case (Cons m ns)
  then have "serves ok \<alpha> (5 * L) (apply_migration pool m) (\<lambda>x. ((), migrate_one m x))"
    "serves ok \<alpha> (5 * L * length ns) (apply_migrations pool ns) (\<lambda>x. ((), migrate_all ns x))"
    using apply_migration_serves[OF assms(1)] by auto
  from serves_and_then[OF this] show ?case
    by (simp add: migrate_all_def algebra_simps)
qed

lemma pg_migrate_serves:
  assumes "pool_runs pool ms ok \<alpha> L"
  shows "serves ok \<alpha> (L + 5 * L * length ms) (pg_migrate pool ms) (\<lambda>x. ((), migrate_all ms x))"
proof -
  obtain n where "serves ok \<alpha> L (pg_execute pool create_migrations_sql) (\<lambda>x. (n, x))"
    using assms unfolding pool_runs_def by blast
  from serves_and_then[OF this apply_migrations_serves[OF assms order_refl]]
  show ?thesis by (simp add: pg_migrate_def)
qed

section \<open>Running migrations again\<close>

lemma versions_migrate_one: "versions (migrate_one m x) = insert (version m) (versions x)"
  by (auto simp: migrate_one_def versions_def)

lemma versions_migrate_all: "versions (migrate_all ms x) = version ` set ms \<union> versions x"
  unfolding migrate_all_def by (induction ms arbitrary: x) (auto simp: versions_migrate_one)

lemma migrate_all_known:
  "version ` set ms \<subseteq> versions x \<Longrightarrow> migrate_all ms x = x"
  unfolding migrate_all_def by (induction ms) (simp_all add: migrate_one_def)

lemma migrate_all_twice: "migrate_all ms (migrate_all ms x) = migrate_all ms x"
  by (rule migrate_all_known) (simp add: versions_migrate_all)

section \<open>A migration that fails\<close>

text \<open>The database refuses the statement of \<open>m\<close>; dropping the transaction rolls it back.\<close>

definition pool_refuses ::
  "'s pg_pool \<Rightarrow> migration \<Rightarrow> ('s \<Rightarrow> bool) \<Rightarrow> ('s \<Rightarrow> pg_view) \<Rightarrow> duration \<Rightarrow> store_error \<Rightarrow> bool" where
  "pool_refuses pool m ok \<alpha> L err \<longleftrightarrow>
     (\<forall>x. rejects ok \<alpha> L x (pg_tx_execute pool (up_sql m) []) err x)
     \<and> serves ok \<alpha> L (pg_tx_rollback pool) (\<lambda>x. ((), x\<lparr>open_tx := []\<rparr>))"

lemma apply_migration_rejects:
  assumes runs: "pool_runs pool ms ok \<alpha> L" and refuses: "pool_refuses pool bad ok \<alpha> L err"
    and new: "version bad \<notin> versions x"
  shows "rejects ok \<alpha> (5 * L) x (apply_migration pool bad) err (x\<lparr>open_tx := []\<rparr>)"
proof -
  let ?x = "x\<lparr>open_tx := []\<rparr>"
  have select: "delivers ok \<alpha> L x (pg_fetch_optional pool select_version_sql [version bad]) None x"
  proof -
    have "serves ok \<alpha> L (pg_fetch_optional pool select_version_sql [version bad])
        (\<lambda>x. (if version bad \<in> versions x then Some (version bad) else None, x))"
      using runs unfolding pool_runs_def by simp
    then show ?thesis using new by (auto simp: serves_iff_delivers dest: spec[of _ x])
  qed
  have begin': "delivers ok \<alpha> L x (pg_begin pool) () ?x"
    using runs unfolding pool_runs_def by (simp add: serves_iff_delivers)
  have up: "rejects ok \<alpha> L ?x (pg_tx_execute pool (up_sql bad) []) err ?x"
    using refuses by (simp add: pool_refuses_def)
  have "serves ok \<alpha> L (pg_tx_rollback pool) (\<lambda>x. ((), x\<lparr>open_tx := []\<rparr>))"
    using refuses by (simp add: pool_refuses_def)
  then have "delivers ok \<alpha> L ?x (pg_tx_rollback pool) () (?x\<lparr>open_tx := []\<rparr>)"
    unfolding serves_iff_delivers by (metis fst_conv snd_conv)
  then have drop_tx: "rejects ok \<alpha> (L + L) ?x (ignoring (pg_tx_rollback pool) (bail err)) err ?x"
    using settles_ignoring[OF _ settles_weaken[OF settles_bail le0]] by fastforce
  have body: "rejects ok \<alpha> (L + (L + L)) ?x (tx_step pool (pg_tx_execute pool (up_sql bad) []) k) err ?x" for k
    unfolding tx_step_def by (rule settles_match_then[OF up]) (use drop_tx in simp)
  have "rejects ok \<alpha> (L + (L + (L + (L + L)))) x (apply_migration pool bad) err ?x"
    unfolding apply_migration_def
    by (rule settles_and_then[OF select]) (simp add: settles_and_then[OF begin' body])
  then show ?thesis by (rule settles_weaken) simp
qed

lemma apply_migrations_rejects:
  assumes runs: "pool_runs pool before ok \<alpha> L" and refuses: "pool_refuses pool bad ok \<alpha> L err"
    and "set ns \<subseteq> set before" and "version bad \<notin> versions (migrate_all ns x)"
  shows "rejects ok \<alpha> (5 * L * Suc (length ns)) x (apply_migrations pool (ns @ bad # after)) err
    ((migrate_all ns x)\<lparr>open_tx := []\<rparr>)"
  using assms(3,4)
proof (induction ns arbitrary: x)
  case Nil
  then show ?case
    using rejects_and_then[OF apply_migration_rejects[OF runs refuses, of x]]
    by (simp add: migrate_all_def)
next
  case (Cons m ns)
  have one: "delivers ok \<alpha> (5 * L) x (apply_migration pool m) () (migrate_one m x)"
    using apply_migration_serves[OF runs, of m] Cons.prems(1) by (simp add: serves_iff_delivers)
  have step: "migrate_all (m # ns) x = migrate_all ns (migrate_one m x)" by (simp add: migrate_all_def)
  have "rejects ok \<alpha> (5 * L + 5 * L * Suc (length ns)) x (apply_migrations pool ((m # ns) @ bad # after)) err
    ((migrate_all (m # ns) x)\<lparr>open_tx := []\<rparr>)"
    unfolding append_Cons apply_migrations.simps step
    by (rule settles_and_then[OF one]) (rule Cons.IH, use Cons.prems in \<open>simp_all add: step\<close>)
  then show ?case by simp
qed

lemma pg_migrate_rejects:
  assumes "pool_runs pool before ok \<alpha> L" and "pool_refuses pool bad ok \<alpha> L err"
    and "version bad \<notin> version ` set before \<union> versions x"
  shows "rejects ok \<alpha> (L + 5 * L * Suc (length before)) x (pg_migrate pool (before @ bad # after)) err
    ((migrate_all before x)\<lparr>open_tx := []\<rparr>)"
proof -
  obtain n where "serves ok \<alpha> L (pg_execute pool create_migrations_sql) (\<lambda>x. (n, x))"
    using assms(1) unfolding pool_runs_def by blast
  then have table: "delivers ok \<alpha> L x (pg_execute pool create_migrations_sql) n x"
    by (simp add: serves_iff_delivers)
  show ?thesis
    unfolding pg_migrate_def
    by (rule settles_and_then[OF table], rule apply_migrations_rejects[OF assms(1,2) order_refl])
      (use assms(3) in \<open>auto simp: versions_migrate_all\<close>)
qed

section \<open>The log\<close>

text \<open>The log grows by the migrations whose version is new, each version once.\<close>

fun fresh_migrations :: "string set \<Rightarrow> migration list \<Rightarrow> migration list" where
  "fresh_migrations seen [] = []"
| "fresh_migrations seen (m # ms) =
     (if version m \<in> seen then fresh_migrations seen ms
      else m # fresh_migrations (insert (version m) seen) ms)"

lemma migrate_all_log:
  "applied_log (migrate_all ms x) = applied_log x
     @ map (\<lambda>m. (version m, up_sql m)) (fresh_migrations (versions x) ms)"
proof (induction ms arbitrary: x)
  case (Cons m ms)
  have step: "migrate_all (m # ms) x = migrate_all ms (migrate_one m x)" by (simp add: migrate_all_def)
  have seen: "versions (migrate_one m x)
      = (if version m \<in> versions x then versions x else insert (version m) (versions x))"
    by (auto simp: versions_migrate_one)
  show ?case unfolding step Cons.IH seen by (simp add: migrate_one_def)
qed (simp add: migrate_all_def)

lemma fresh_distinct:
  "distinct (map version (fresh_migrations seen ms)) \<and> version ` set (fresh_migrations seen ms) \<inter> seen = {}"
  by (induction ms arbitrary: seen) auto

section \<open>Integers in rows\<close>

text \<open>The reader's side: a decimal number with an optional sign.\<close>

definition read_nat :: "bytes \<Rightarrow> nat" where
  "read_nat bs = foldl (\<lambda>n b. 10 * n + (unat b - 48)) 0 bs"

definition read_int :: "bytes \<Rightarrow> int" where
  "read_int bs =
     (case bs of
        [] \<Rightarrow> 0
      | b # rest \<Rightarrow> if b = 45 then - int (read_nat rest) else int (read_nat bs))"

lemma digit_byte: "d < 10 \<Longrightarrow> unat (of_char (char_of (48 + d :: nat)) :: 8 word) = 48 + d"
proof -
  assume "d < 10"
  have "(of_char (char_of (48 + d)) :: 8 word) = of_nat (of_char (char_of (48 + d)))"
    by (simp only: of_nat_of_char)
  also have "\<dots> = of_nat (48 + d)" using \<open>d < 10\<close> by (simp only: of_char_of) simp
  finally have "unat (of_char (char_of (48 + d)) :: 8 word) = unat (of_nat (48 + d) :: 8 word)" by simp
  also have "\<dots> = 48 + d" using \<open>d < 10\<close> by (simp only: unat_of_nat) simp
  finally show ?thesis .
qed

lemma read_nat_snoc: "read_nat (bs @ [b]) = 10 * read_nat bs + (unat b - 48)"
  by (simp add: read_nat_def)

lemma read_nat_digits: "read_nat (map of_char (digits n)) = n"
proof (induction n rule: digits.induct)
  case (1 n)
  show ?case
  proof (cases "n < 10")
    case True
    then show ?thesis by (simp add: read_nat_def digit_byte)
  next
    case False
    then show ?thesis
      using "1.IH" by (subst digits.simps) (simp add: read_nat_snoc digit_byte del: digits.simps)
  qed
qed

lemma digits_head: "\<exists>d < 10. hd (digits n) = char_of (48 + d :: nat) \<and> digits n \<noteq> []"
proof (induction n rule: digits.induct)
  case (1 n)
  show ?case
  proof (cases "n < 10")
    case False
    with "1.IH" show ?thesis by (subst (1 2) digits.simps) (auto simp del: digits.simps)
  qed auto
qed

lemma read_int_to_bytes: "read_int (int_to_bytes i) = i"
proof (cases "i < 0")
  case True
  then show ?thesis
    by (simp add: int_to_bytes_def read_int_def read_nat_digits of_char_def del: digits.simps)
next
  case False
  obtain d ds where d: "digits (nat i) = char_of (48 + d :: nat) # ds" "d < 10"
    using digits_head[of "nat i"] by (cases "digits (nat i)") auto
  have "(of_char (char_of (48 + d :: nat)) :: 8 word) \<noteq> 45"
    using digit_byte[OF d(2)] by (auto dest: arg_cong[of _ _ unat])
  with False read_nat_digits[of "nat i"] show ?thesis
    by (simp add: int_to_bytes_def read_int_def d del: digits.simps)
qed

text \<open>A cell the driver converts to an integer only.\<close>

definition int_cell :: "pg_cell \<Rightarrow> int \<Rightarrow> bool" where
  "int_cell c n \<longleftrightarrow> try_string c = None \<and> try_bytes c = None
     \<and> (try_i32 c = Some n \<or> try_i32 c = None \<and> try_i64 c = Some n)"

lemma int_cell_bytes: "i < length row \<Longrightarrow> int_cell (snd (row ! i)) n \<Longrightarrow> read_int (cell_bytes row i) = n"
  by (auto simp: cell_bytes_def int_cell_def read_int_to_bytes Let_def)

lemma rows_of_shape:
  "rows_columns (rows_of rs) = (case rs of [] \<Rightarrow> [] | row # _ \<Rightarrow> map fst row)"
  "length (rows_data (rows_of rs)) = length rs"
  "i < length rs \<Longrightarrow> length (rows_data (rows_of rs) ! i) = length (rows_columns (rows_of rs))"
  "i < length rs \<Longrightarrow> j < length (rows_columns (rows_of rs)) \<Longrightarrow>
     rows_data (rows_of rs) ! i ! j = cell_bytes (rs ! i) j"
  by (auto simp: rows_of_def Let_def split: list.splits)

end
