(* ===== verification/Metric_Safety.thy ===== *)
theory Metric_Safety
  imports Executor
begin

text \<open>
  The metric calls of the wrappers are calls the client accepts: every family that is touched
  is registered with that kind and gets one value per label. A call with the wrong number of
  label values would panic in \<open>with_label_values\<close>, in the middle of a store operation.
\<close>

definition events_ok :: "'s env \<Rightarrow> bool" where
  "events_ok e \<longleftrightarrow> (\<forall>ev \<in> set (events e). event_ok ev)"

lemma events_ok_simps [simp]:
  "events_ok (emit ev e) \<longleftrightarrow> event_ok ev \<and> events_ok e"
  "events_ok (sleep d e) = events_ok e"
  "events_ok (e\<lparr>store := s\<rparr>) = events_ok e"
  by (auto simp: events_ok_def)

fun poll_env :: "('s, 'a) poll \<Rightarrow> 's env" where
  "poll_env (Finished r e) = e"
| "poll_env (Unfinished e) = e"
| "poll_env (Panicked e) = e"

text \<open>A future that makes only accepted metric calls.\<close>

definition metrics_safe :: "('s, 'a) future \<Rightarrow> bool" where
  "metrics_safe fut \<longleftrightarrow> (\<forall>dl e. events_ok e \<longrightarrow> events_ok (poll_env (fut dl e)))"

lemma metrics_safeD:
  "metrics_safe fut \<Longrightarrow> events_ok e \<Longrightarrow> fut dl e = p \<Longrightarrow> events_ok (poll_env p)"
  by (auto simp: metrics_safe_def)

lemma metrics_safe_atomic: "metrics_safe (atomic lat f)"
  by (auto simp: metrics_safe_def atomic_def split: option.splits)

text \<open>The histogram of each contract.\<close>

definition duration_families :: "family set" where
  "duration_families = {KvOperationDuration, RelationalQueryDuration, SortedSetOperationDuration,
     BlobOperationDuration, PubsubOperationDuration}"

lemma metrics_safe_instrumented:
  assumes "fam \<in> duration_families" and "metrics_safe fut"
  shows "metrics_safe (instrumented fam contract op backend fut)"
  unfolding metrics_safe_def
proof (intro allI impI)
  fix dl and e :: "'a env"
  assume "events_ok e"
  then have "events_ok (poll_env (fut dl e))" using assms(2) by (simp add: metrics_safe_def)
  then show "events_ok (poll_env (instrumented fam contract op backend fut dl e))"
    using assms(1) by (cases "fut dl e") (auto simp: instrumented_def Let_def duration_families_def)
qed

lemma metrics_safe_instrumented_health:
  assumes "metrics_safe fut"
  shows "metrics_safe (instrumented_health contract backend fut)"
  unfolding metrics_safe_def
proof (intro allI impI)
  fix dl and e :: "'a env"
  assume "events_ok e"
  then have "events_ok (poll_env (fut dl e))" using assms by (simp add: metrics_safe_def)
  then show "events_ok (poll_env (instrumented_health contract backend fut dl e))"
    by (cases "fut dl e") (auto simp: instrumented_health_def Let_def split: sum.splits)
qed

fun outcome_env :: "('s, 'a) outcome \<Rightarrow> 's env" where
  "outcome_env (Returned r (cb, e)) = e"
| "outcome_env (Aborted (cb, e)) = e"

lemma with_timeout_env:
  assumes "metrics_safe fut" and "events_ok e"
  shows "events_ok (poll_env (with_timeout d fut e))"
proof -
  have "events_ok (poll_env (fut (Some d) e))" using assms by (simp add: metrics_safe_def)
  then show ?thesis by (cases "fut (Some d) e") (simp_all add: with_timeout_def)
qed

lemma set_breaker_gauge_ok [simp]: "events_ok (set_breaker_gauge contract backend cb e) = events_ok e"
  by (simp add: set_breaker_gauge_def)

lemma retry_loop_events_ok:
  assumes "retry_loop oc cfg contract backend op_name operation prev st = Some out"
    and "metrics_safe operation" and "events_ok (snd st)"
  shows "events_ok (outcome_env out)"
proof -
  have "metrics_safe operation \<longrightarrow> events_ok (snd st) \<longrightarrow> events_ok (outcome_env out)"
  proof (rule retry_loop.raw_induct[where P = "\<lambda>oc cfg c b opn operation a s out.
        metrics_safe operation \<longrightarrow> events_ok (snd s) \<longrightarrow> events_ok (outcome_env out)",
        OF _ assms(1)], goal_cases)
    case (1 loop oc cfg c b opn operation a s out)
    obtain cb e where s: "s = (cb, e)" by (cases s)
    show ?case
    proof (intro impI)
      assume safe: "metrics_safe operation" and e: "events_ok (snd s)"
      let ?run = "with_timeout (from_secs (operation_timeout_seconds cfg)) operation e"
      have run: "events_ok (poll_env ?run)" using with_timeout_env[OF safe] e s by simp
      from 1(2) run safe e show "events_ok (outcome_env out)"
        by (cases ?run)
          (auto simp: s Let_def dest!: 1(1) split: if_splits sum.splits option.splits prod.splits)
    qed
  qed
  with assms(2,3) show ?thesis by blast
qed

lemma execute_events_ok:
  assumes "execute oc cfg contract backend op_name operation st = Some out"
    and "metrics_safe operation" and "events_ok (snd st)"
  shows "events_ok (outcome_env out)"
proof -
  obtain cb e where st: "st = (cb, e)" by (cases st)
  obtain r cb1 where c: "can_execute (clock e) cb = (r, cb1)" by (cases "can_execute (clock e) cb")
  show ?thesis
  proof (cases r)
    case (Inl err)
    with assms(1,3) c st show ?thesis by (auto simp: execute_def)
  next
    case (Inr u)
    with assms(1) c st have
      "retry_loop oc cfg contract backend op_name operation 0 (cb1, e) = Some out"
      by (simp add: execute_def)
    from retry_loop_events_ok[OF this assms(2)] assms(3) st show ?thesis by simp
  qed
qed

text \<open>
  An attempt cut off by the executor's timeout leaves no trace in the instrumented store's own
  metrics: neither its duration nor an error is recorded.
\<close>

lemma timed_out_attempt_unrecorded:
  assumes "fut (Some d) e = Unfinished e1"
  shows "with_timeout d (instrumented fam contract op_name backend fut) e
    = Finished (Inl OperationTimedOut) e1"
  using assms by (simp add: with_timeout_def instrumented_def Let_def)

end
