(* ===== verification/Faults.thy ===== *)
theory Faults
  imports Async_Ops Metric_Safety
begin

text \<open>
  Operations that may fail at any point. \<open>serves\<close> and \<open>settles\<close> say what an operation does on a
  backend that works; here nothing is assumed of the result, and a triple says what is left behind
  however the operation ends: with a value, with an error, dropped at a deadline or in a panic.
\<close>

definition leaves ::
  "('s \<Rightarrow> bool) \<Rightarrow> ('s, 'a) future \<Rightarrow> ('a result \<Rightarrow> 's \<Rightarrow> bool) \<Rightarrow> ('s \<Rightarrow> bool) \<Rightarrow> bool" where
  "leaves P fut R D \<longleftrightarrow>
     (\<forall>dl e. P (store e) \<longrightarrow>
        (case fut dl e of
           Finished r e' \<Rightarrow> R r (store e')
         | Unfinished e' \<Rightarrow> D (store e')
         | Panicked e' \<Rightarrow> D (store e')))"

named_theorems leaves_intros

lemma leavesD:
  assumes "leaves P fut R D" and "P (store e)"
  shows "fut dl e = Finished r e' \<Longrightarrow> R r (store e')"
    and "fut dl e = Unfinished e' \<Longrightarrow> D (store e')"
    and "fut dl e = Panicked e' \<Longrightarrow> D (store e')"
  using assms unfolding leaves_def by (metis poll.simps(10) poll.simps(11) poll.simps(12))+

lemma leaves_weaken:
  assumes "leaves P fut R D" and "\<And>s. P' s \<Longrightarrow> P s" and "\<And>r s. R r s \<Longrightarrow> R' r s" and "\<And>s. D s \<Longrightarrow> D' s"
  shows "leaves P' fut R' D'"
  using assms unfolding leaves_def by (fastforce split: poll.splits)

lemma leaves_drop: "leaves P fut R D \<Longrightarrow> (\<And>s. D s \<Longrightarrow> D' s) \<Longrightarrow> leaves P fut R D'"
  by (rule leaves_weaken) assumption+

lemma leaves_ready [leaves_intros]: "(\<And>s. P s \<Longrightarrow> R (Inr v) s) \<Longrightarrow> leaves P (ready v) R D"
  by (simp add: leaves_def ready_def)

lemma leaves_bail [leaves_intros]: "(\<And>s. P s \<Longrightarrow> R (Inl err) s) \<Longrightarrow> leaves P (bail err) R D"
  by (simp add: leaves_def bail_def)

lemma leaves_match_then:
  assumes "leaves P fut Q D" and "\<And>r. leaves (Q r) (k r) R D"
  shows "leaves P (match_then fut k) R D"
  using assms unfolding leaves_def match_then_def by (fastforce split: poll.splits)

lemma leaves_and_then:
  assumes "leaves P fut Q D" and "\<And>v. leaves (Q (Inr v)) (k v) R D" and "\<And>err s. Q (Inl err) s \<Longrightarrow> R (Inl err) s"
  shows "leaves P (and_then fut k) R D"
  unfolding and_then_def
  by (rule leaves_match_then[OF assms(1)]) (auto split: sum.splits intro: assms(2,3) leaves_bail)

lemma leaves_ignoring:
  assumes "leaves P fut (\<lambda>_. Q) D" and "leaves Q k R D"
  shows "leaves P (ignoring fut k) R D"
  unfolding ignoring_def using assms by (rule leaves_match_then)

lemma leaves_instrumented [leaves_intros]:
  assumes "leaves P fut R D"
  shows "leaves P (instrumented fam contract op backend fut) R D"
  using assms unfolding leaves_def instrumented_def Let_def by (fastforce split: poll.splits)

section \<open>Under the executor\<close>

text \<open>
  What holds before an attempt and after every attempt that brings no value holds however often the
  executor tries; the value it returns is the one of its last attempt.
\<close>

fun outcome_leaves :: "('a \<Rightarrow> 's \<Rightarrow> bool) \<Rightarrow> ('s \<Rightarrow> bool) \<Rightarrow> ('s, 'a) outcome \<Rightarrow> bool" where
  "outcome_leaves Q I (Returned (Inr v) (cb, e)) = Q v (store e)"
| "outcome_leaves Q I (Returned (Inl err) (cb, e)) = I (store e)"
| "outcome_leaves Q I (Aborted (cb, e)) = I (store e)"

definition attempt_leaves :: "('s \<Rightarrow> bool) \<Rightarrow> ('s, 'a) future \<Rightarrow> ('a \<Rightarrow> 's \<Rightarrow> bool) \<Rightarrow> bool" where
  "attempt_leaves I fut Q \<longleftrightarrow> leaves I fut (\<lambda>r. case r of Inl err \<Rightarrow> I | Inr v \<Rightarrow> Q v) I"

lemma attempt_with_timeout:
  assumes "attempt_leaves I fut Q" and "I (store e)"
  shows "case with_timeout d fut e of
      Finished (Inr v) e' \<Rightarrow> Q v (store e')
    | Finished (Inl err) e' \<Rightarrow> I (store e')
    | Unfinished e' \<Rightarrow> False
    | Panicked e' \<Rightarrow> I (store e')"
proof -
  note after = leavesD[OF assms(1)[unfolded attempt_leaves_def] assms(2), of "Some d"]
  show ?thesis
  proof (cases "fut (Some d) e")
    case (Finished r e')
    with after(1) show ?thesis by (cases r) (fastforce simp: with_timeout_def)+
  qed (use assms(2) after in \<open>simp_all add: with_timeout_def\<close>)
qed

lemma retry_loop_leaves:
  assumes "retry_loop oc cfg contract backend op_name fut prev st = Some out"
    and "attempt_leaves I fut Q" and "I (store (snd st))"
  shows "outcome_leaves Q I out"
proof -
  have "attempt_leaves I fut Q \<longrightarrow> I (store (snd st)) \<longrightarrow> outcome_leaves Q I out"
  proof (rule retry_loop.raw_induct[where P = "\<lambda>oc cfg c b opn fut a s out.
        attempt_leaves I fut Q \<longrightarrow> I (store (snd s)) \<longrightarrow> outcome_leaves Q I out",
        OF _ assms(1)], goal_cases)
    case (1 loop oc cfg c b opn fut a s out)
    obtain cb e where s: "s = (cb, e)" by (cases s)
    show ?case
    proof (intro impI)
      assume att: "attempt_leaves I fut Q" and e: "I (store (snd s))"
      let ?run = "with_timeout (from_secs (operation_timeout_seconds cfg)) fut e"
      note run = attempt_with_timeout[OF att, of e "from_secs (operation_timeout_seconds cfg)"]
      from 1(2) run att e show "outcome_leaves Q I out"
        by (cases ?run)
          (auto simp: s Let_def set_breaker_gauge_def dest!: 1(1)
            split: if_splits sum.splits option.splits prod.splits)
    qed
  qed
  with assms(2,3) show ?thesis by blast
qed

lemma execute_leaves:
  assumes "execute oc cfg contract backend op_name fut (cb, e) = Some out"
    and "attempt_leaves I fut Q" and "I (store e)"
  shows "outcome_leaves Q I out"
  using assms retry_loop_leaves[OF _ assms(2)]
  by (fastforce simp: execute_def split: prod.splits sum.splits)

lemma outcome_leaves_cases:
  assumes "outcome_leaves (\<lambda>_. Q) I out" and "\<And>s. Q s \<Longrightarrow> I s"
  shows "I (store (outcome_env out))" and "out = Returned (Inr v) st \<Longrightarrow> Q (store (outcome_env out))"
proof -
  have "I (store (outcome_env out)) \<and> (\<forall>v st. out = Returned (Inr v) st \<longrightarrow> Q (store (outcome_env out)))"
  proof (cases out)
    case (Returned r st)
    with assms show ?thesis by (cases r; cases st) auto
  next
    case (Aborted st)
    with assms show ?thesis by (cases st) auto
  qed
  then show "I (store (outcome_env out))" and "out = Returned (Inr v) st \<Longrightarrow> Q (store (outcome_env out))"
    by blast+
qed

end
