(* ===== verification/Migration_Faults.thy ===== *)
theory Migration_Faults
  imports Relational_Store Faults
begin

text \<open>
  \<open>PostgresRelationalStore::migrate\<close> (\<^verbatim>\<open>rust/src/relational.rs\<close>) on a database that may fail:
  any statement may be refused or lost, any call may be cut off by the executor's timeout, and the
  reply to a commit may be lost after the commit took effect. The executor then runs the whole list
  again. What ends up in the database is shown to be a prefix of the list all the same.
\<close>

text \<open>
  Documented behaviour of the pool, in every case: only a commit changes what is recorded; a commit
  records the statements of its transaction or nothing, and everything when it reports success; a
  version is reported exactly when it is recorded. Nobody else migrates at the same time.
\<close>

abbreviation keeps_log :: "('s \<Rightarrow> pg_view) \<Rightarrow> ('s, 'a) future \<Rightarrow> bool" where
  "keeps_log \<alpha> fut \<equiv> (\<forall>l. leaves (\<lambda>s. applied_log (\<alpha> s) = l) fut
     (\<lambda>_ s. applied_log (\<alpha> s) = l) (\<lambda>s. applied_log (\<alpha> s) = l))"

definition pool_transacts :: "'s pg_pool \<Rightarrow> ('s \<Rightarrow> pg_view) \<Rightarrow> bool" where
  "pool_transacts pool \<alpha> \<longleftrightarrow>
     keeps_log \<alpha> (pg_execute pool create_migrations_sql)
     \<and> keeps_log \<alpha> (pg_tx_rollback pool)
     \<and> (\<forall>l v. leaves (\<lambda>s. applied_log (\<alpha> s) = l) (pg_fetch_optional pool select_version_sql [v])
          (\<lambda>r s. applied_log (\<alpha> s) = l \<and> (\<forall>found. r = Inr found \<longrightarrow> (found = None \<longleftrightarrow> v \<notin> fst ` set l)))
          (\<lambda>s. applied_log (\<alpha> s) = l))
     \<and> (\<forall>l. leaves (\<lambda>s. applied_log (\<alpha> s) = l) (pg_begin pool)
          (\<lambda>r s. applied_log (\<alpha> s) = l \<and> (r = Inr () \<longrightarrow> open_tx (\<alpha> s) = []))
          (\<lambda>s. applied_log (\<alpha> s) = l))
     \<and> (\<forall>l tx sql binds. leaves (\<lambda>s. applied_log (\<alpha> s) = l \<and> open_tx (\<alpha> s) = tx)
          (pg_tx_execute pool sql binds)
          (\<lambda>r s. applied_log (\<alpha> s) = l \<and> (\<forall>n. r = Inr n \<longrightarrow> open_tx (\<alpha> s) = tx @ [(sql, binds)]))
          (\<lambda>s. applied_log (\<alpha> s) = l))
     \<and> (\<forall>l tx. leaves (\<lambda>s. applied_log (\<alpha> s) = l \<and> open_tx (\<alpha> s) = tx) (pg_tx_commit pool)
          (\<lambda>r s. applied_log (\<alpha> s) = l @ tx_log tx \<or> (r \<noteq> Inr () \<and> applied_log (\<alpha> s) = l))
          (\<lambda>s. applied_log (\<alpha> s) = l @ tx_log tx \<or> applied_log (\<alpha> s) = l))"

section \<open>One run\<close>

definition entry :: "migration \<Rightarrow> string \<times> string" where
  "entry m = (version m, up_sql m)"

text \<open>What a run adds to a log: the new migrations, or the first \<open>n\<close> of them.\<close>

definition missing :: "(string \<times> string) list \<Rightarrow> migration list \<Rightarrow> (string \<times> string) list" where
  "missing l ms = map entry (fresh_migrations (fst ` set l) ms)"

definition grown :: "(string \<times> string) list \<Rightarrow> migration list \<Rightarrow> (string \<times> string) list \<Rightarrow> bool" where
  "grown l ms l' \<longleftrightarrow> (\<exists>n. l' = l @ take n (missing l ms))"

lemma missing_simps:
  "missing l [] = []"
  "missing l (m # ms) =
     (if version m \<in> fst ` set l then missing l ms else entry m # missing (l @ [entry m]) ms)"
  by (simp_all add: missing_def entry_def)

lemma grown_refl: "grown l ms l"
  unfolding grown_def by (intro exI[of _ 0]) simp

lemma grown_all: "grown l ms (l @ missing l ms)"
  unfolding grown_def by (intro exI[of _ "length (missing l ms)"]) simp

lemma grown_Cons:
  "version m \<in> fst ` set l \<Longrightarrow> grown l ms l' \<Longrightarrow> grown l (m # ms) l'"
  "version m \<notin> fst ` set l \<Longrightarrow> grown (l @ [entry m]) ms l' \<Longrightarrow> grown l (m # ms) l'"
proof -
  show "grown l (m # ms) l'" if "version m \<in> fst ` set l" "grown l ms l'"
    using that by (simp add: grown_def missing_simps)
  assume new: "version m \<notin> fst ` set l" and "grown (l @ [entry m]) ms l'"
  then obtain n where "l' = l @ entry m # take n (missing (l @ [entry m]) ms)"
    by (auto simp: grown_def)
  with new show "grown l (m # ms) l'"
    unfolding grown_def by (intro exI[of _ "Suc n"]) (simp add: missing_simps)
qed

text \<open>Running the list again from such a log adds what is left.\<close>

lemma missing_grown: "missing (l @ take n (missing l ms)) ms = drop n (missing l ms)"
proof (induction ms arbitrary: l n)
  case (Cons m ms)
  show ?case
  proof (cases "version m \<in> fst ` set l")
    case True
    then have "version m \<in> fst ` set (l @ xs)" for xs by auto
    with True Cons.IH[of l n] show ?thesis by (simp add: missing_simps)
  next
    case False
    show ?thesis
    proof (cases n)
      case (Suc k)
      have "version m \<in> fst ` set (l @ take n (missing l (m # ms)))"
        using False by (simp add: missing_simps Suc entry_def)
      moreover have "l @ take n (missing l (m # ms)) = (l @ [entry m]) @ take k (missing (l @ [entry m]) ms)"
        using False by (simp add: missing_simps Suc)
      ultimately show ?thesis
        using Cons.IH[of "l @ [entry m]" k] False by (simp add: missing_simps(2) Suc)
    qed simp
  qed
qed (simp add: missing_simps)

lemma grown_trans:
  assumes "grown l ms l1" and "grown l1 ms l2"
  shows "grown l ms l2"
proof -
  obtain n k where "l1 = l @ take n (missing l ms)" "l2 = l1 @ take k (missing l1 ms)"
    using assms unfolding grown_def by blast
  then have "l2 = l @ take (n + k) (missing l ms)" by (simp add: missing_grown take_add)
  then show ?thesis unfolding grown_def by blast
qed

lemma grown_rest: "grown l ms l1 \<Longrightarrow> l1 @ missing l1 ms = l @ missing l ms"
  unfolding grown_def by (auto simp: missing_grown)

lemma missing_distinct: "distinct (map fst (missing l ms)) \<and> fst ` set (missing l ms) \<inter> fst ` set l = {}"
proof -
  have "fst ` set (missing l ms) = version ` set (fresh_migrations (fst ` set l) ms)"
    by (simp add: missing_def entry_def image_image)
  then show ?thesis
    using fresh_distinct[of "fst ` set l" ms] by (simp add: missing_def entry_def comp_def)
qed

lemma tx_step_leaves:
  assumes "leaves P fut Q D" and "\<And>v. leaves (Q (Inr v)) (k v) R D"
    and "\<And>err. leaves (Q (Inl err)) (ignoring (pg_tx_rollback pool) (bail err)) R D"
  shows "leaves P (tx_step pool fut k) R D"
  unfolding tx_step_def by (rule leaves_match_then[OF assms(1)]) (auto split: sum.splits intro: assms(2,3))

lemma pool_transactsD:
  assumes "pool_transacts pool \<alpha>"
  shows "leaves (\<lambda>s. applied_log (\<alpha> s) = l) (pg_execute pool create_migrations_sql)
      (\<lambda>_ s. applied_log (\<alpha> s) = l) (\<lambda>s. applied_log (\<alpha> s) = l)"
    and "leaves (\<lambda>s. applied_log (\<alpha> s) = l) (pg_tx_rollback pool)
      (\<lambda>_ s. applied_log (\<alpha> s) = l) (\<lambda>s. applied_log (\<alpha> s) = l)"
    and "leaves (\<lambda>s. applied_log (\<alpha> s) = l) (pg_fetch_optional pool select_version_sql [v])
      (\<lambda>r s. applied_log (\<alpha> s) = l \<and> (\<forall>found. r = Inr found \<longrightarrow> (found = None \<longleftrightarrow> v \<notin> fst ` set l)))
      (\<lambda>s. applied_log (\<alpha> s) = l)"
    and "leaves (\<lambda>s. applied_log (\<alpha> s) = l) (pg_begin pool)
      (\<lambda>r s. applied_log (\<alpha> s) = l \<and> (r = Inr () \<longrightarrow> open_tx (\<alpha> s) = []))
      (\<lambda>s. applied_log (\<alpha> s) = l)"
    and "leaves (\<lambda>s. applied_log (\<alpha> s) = l \<and> open_tx (\<alpha> s) = tx) (pg_tx_execute pool sql binds)
      (\<lambda>r s. applied_log (\<alpha> s) = l \<and> (\<forall>n. r = Inr n \<longrightarrow> open_tx (\<alpha> s) = tx @ [(sql, binds)]))
      (\<lambda>s. applied_log (\<alpha> s) = l)"
    and "leaves (\<lambda>s. applied_log (\<alpha> s) = l \<and> open_tx (\<alpha> s) = tx) (pg_tx_commit pool)
      (\<lambda>r s. applied_log (\<alpha> s) = l @ tx_log tx \<or> (r \<noteq> Inr () \<and> applied_log (\<alpha> s) = l))
      (\<lambda>s. applied_log (\<alpha> s) = l @ tx_log tx \<or> applied_log (\<alpha> s) = l)"
  using assms unfolding pool_transacts_def by blast+

text \<open>What a run of \<open>ms\<close> from the log \<open>l\<close> may leave, and what it leaves when it succeeds.\<close>

definition run_leaves ::
  "('s \<Rightarrow> pg_view) \<Rightarrow> (string \<times> string) list \<Rightarrow> migration list \<Rightarrow> ('s, unit) future \<Rightarrow> bool" where
  "run_leaves \<alpha> l ms fut \<longleftrightarrow>
     leaves (\<lambda>s. applied_log (\<alpha> s) = l) fut
       (\<lambda>r s. grown l ms (applied_log (\<alpha> s)) \<and> (r = Inr () \<longrightarrow> applied_log (\<alpha> s) = l @ missing l ms))
       (\<lambda>s. grown l ms (applied_log (\<alpha> s)))"

lemma transaction_leaves:
  assumes pool: "pool_transacts pool \<alpha>" and new: "version m \<notin> fst ` set l"
  shows "run_leaves \<alpha> l [m] (and_then (pg_begin pool) (\<lambda>_.
    tx_step pool (pg_tx_execute pool (up_sql m) []) (\<lambda>_.
      tx_step pool (pg_tx_execute pool insert_version_sql [version m]) (\<lambda>_. pg_tx_commit pool))))"
proof -
  let ?log = "\<lambda>s. applied_log (\<alpha> s)"
  let ?R = "\<lambda>r s. grown l [m] (?log s) \<and> (r = Inr () \<longrightarrow> ?log s = l @ missing l [m])"
  let ?D = "\<lambda>s. grown l [m] (?log s)"
  have one: "missing l [m] = [entry m]" using new by (simp add: missing_simps)
  have same: "grown l [m] l" by (rule grown_refl)
  have more: "grown l [m] (l @ [entry m])" using grown_all[of l "[m]"] by (simp add: one)
  have rollback: "leaves (\<lambda>s. ?log s = l) (ignoring (pg_tx_rollback pool) (bail err)) ?R ?D" for err
    by (rule leaves_ignoring[OF leaves_drop[OF pool_transactsD(2)[OF pool]] leaves_bail]) (simp_all add: same)
  have commit: "leaves (\<lambda>s. ?log s = l \<and> open_tx (\<alpha> s) = [(up_sql m, []), (insert_version_sql, [version m])])
      (pg_tx_commit pool) ?R ?D"
    by (rule leaves_weaken[OF pool_transactsD(6)[OF pool]]) (auto simp: one grown_refl more[unfolded entry_def] entry_def)
  have insert: "leaves (\<lambda>s. ?log s = l \<and> open_tx (\<alpha> s) = [(up_sql m, [])])
      (tx_step pool (pg_tx_execute pool insert_version_sql [version m]) (\<lambda>_. pg_tx_commit pool)) ?R ?D"
    by (rule tx_step_leaves[OF leaves_drop[OF pool_transactsD(5)[OF pool]]])
      (simp_all add: same commit rollback)
  have up: "leaves (\<lambda>s. ?log s = l \<and> open_tx (\<alpha> s) = [])
      (tx_step pool (pg_tx_execute pool (up_sql m) []) (\<lambda>_.
        tx_step pool (pg_tx_execute pool insert_version_sql [version m]) (\<lambda>_. pg_tx_commit pool))) ?R ?D"
    by (rule tx_step_leaves[OF leaves_drop[OF pool_transactsD(5)[OF pool]]])
      (simp_all add: same insert rollback)
  show ?thesis
    unfolding run_leaves_def
    by (rule leaves_and_then[OF leaves_drop[OF pool_transactsD(4)[OF pool]]]) (simp_all add: same up)
qed

lemma apply_migration_leaves:
  assumes pool: "pool_transacts pool \<alpha>"
  shows "run_leaves \<alpha> l [m] (apply_migration pool m)"
proof -
  let ?R = "\<lambda>r s. grown l [m] (applied_log (\<alpha> s)) \<and> (r = Inr () \<longrightarrow> applied_log (\<alpha> s) = l @ missing l [m])"
  let ?D = "\<lambda>s. grown l [m] (applied_log (\<alpha> s))"
  let ?body = "\<lambda>applied. if applied = None
    then and_then (pg_begin pool) (\<lambda>_.
      tx_step pool (pg_tx_execute pool (up_sql m) []) (\<lambda>_.
        tx_step pool (pg_tx_execute pool insert_version_sql [version m]) (\<lambda>_. pg_tx_commit pool)))
    else ready ()"
  have body: "leaves (\<lambda>s. applied_log (\<alpha> s) = l \<and> (found = None \<longleftrightarrow> version m \<notin> fst ` set l)) (?body found) ?R ?D"
    for found :: "string option"
  proof (cases "version m \<in> fst ` set l")
    case False
    from transaction_leaves[OF pool this] show ?thesis
      unfolding run_leaves_def using False
      by (cases found) (auto simp: leaves_def elim: leaves_weaken)
  next
    case True
    then show ?thesis
      by (cases found) (auto simp: leaves_def ready_def grown_refl missing_simps)
  qed
  show ?thesis
    unfolding run_leaves_def apply_migration_def
  proof (rule leaves_and_then[OF leaves_drop[OF pool_transactsD(3)[OF pool, of l "version m"]]])
    fix found :: "string option"
    show "leaves (\<lambda>s. applied_log (\<alpha> s) = l \<and> (\<forall>v. Inr found = Inr v \<longrightarrow> (v = None \<longleftrightarrow> version m \<notin> fst ` set l)))
        (?body found) ?R ?D"
      by (rule leaves_weaken[OF body]) simp_all
  qed (simp_all add: grown_refl)
qed

lemma apply_migrations_leaves:
  assumes pool: "pool_transacts pool \<alpha>"
  shows "run_leaves \<alpha> l ms (apply_migrations pool ms)"
proof (induction ms arbitrary: l)
  case Nil
  show ?case
    unfolding run_leaves_def apply_migrations.simps
    by (rule leaves_ready) (simp add: grown_refl missing_simps)
next
  case (Cons m ms)
  let ?R = "\<lambda>r s. grown l (m # ms) (applied_log (\<alpha> s))
    \<and> (r = Inr () \<longrightarrow> applied_log (\<alpha> s) = l @ missing l (m # ms))"
  let ?D = "\<lambda>s. grown l (m # ms) (applied_log (\<alpha> s))"
  let ?l1 = "l @ missing l [m]"
  have first: "grown l (m # ms) l'" if "grown l [m] l'" for l'
    using that unfolding grown_def missing_simps
    by (auto split: if_splits intro: exI[of _ 0] simp: take_Cons')
  have then_rest: "grown l (m # ms) l'" if "grown ?l1 ms l'" for l'
    using that grown_Cons[of m l ms l'] by (auto simp: missing_simps split: if_splits)
  have all: "missing l [m] @ missing ?l1 ms = missing l (m # ms)" by (simp add: missing_simps)
  have "leaves (\<lambda>s. applied_log (\<alpha> s) = ?l1) (apply_migrations pool ms) ?R ?D"
    by (rule leaves_weaken[OF Cons.IH[of ?l1, unfolded run_leaves_def]]) (auto simp: then_rest all)
  then have "leaves (\<lambda>s. grown l [m] (applied_log (\<alpha> s)) \<and> applied_log (\<alpha> s) = ?l1) (apply_migrations pool ms) ?R ?D"
    by (rule leaves_weaken) auto
  then show ?case
    unfolding run_leaves_def apply_migrations.simps
    by (intro leaves_and_then[OF leaves_drop[OF apply_migration_leaves[OF pool, unfolded run_leaves_def]]])
      (simp_all add: first)
qed

lemma pg_migrate_leaves:
  assumes "pool_transacts pool \<alpha>"
  shows "run_leaves \<alpha> l ms (pg_migrate pool ms)"
  unfolding run_leaves_def pg_migrate_def
  by (intro leaves_and_then[OF leaves_drop[OF pool_transactsD(1)[OF assms]]])
    (simp_all add: grown_refl apply_migrations_leaves[OF assms, unfolded run_leaves_def])

section \<open>All runs of a call\<close>

lemma resilient_migrate_leaves:
  assumes pool: "pool_transacts pool \<alpha>"
    and call: "resilient_migrate oc cfg backend (instrumented_relational (postgres_relational pool) backend) ms
      (cb, e) = Some out"
  shows "outcome_leaves
    (\<lambda>_ s. applied_log (\<alpha> s) = applied_log (\<alpha> (store e)) @ missing (applied_log (\<alpha> (store e))) ms)
    (\<lambda>s. grown (applied_log (\<alpha> (store e))) ms (applied_log (\<alpha> s))) out"
proof -
  let ?l = "applied_log (\<alpha> (store e))"
  let ?I = "\<lambda>s. grown ?l ms (applied_log (\<alpha> s))"
  let ?done = "\<lambda>s. applied_log (\<alpha> s) = ?l @ missing ?l ms"
  let ?fut = "instrumented RelationalQueryDuration ''relational'' ''migrate'' backend (pg_migrate pool ms)"
  have each: "run_leaves \<alpha> l1 ms ?fut" for l1
    unfolding run_leaves_def
    by (rule leaves_instrumented) (rule pg_migrate_leaves[OF pool, unfolded run_leaves_def])
  have "attempt_leaves ?I ?fut (\<lambda>_. ?done)"
    unfolding attempt_leaves_def leaves_def
  proof (intro allI impI)
    fix dl and e1 :: "'a env"
    assume grown: "?I (store e1)"
    note after = leavesD[OF each[unfolded run_leaves_def], of e1 "applied_log (\<alpha> (store e1))" dl, OF refl]
    show "case ?fut dl e1 of
        Finished r e' \<Rightarrow> (case r of Inl err \<Rightarrow> ?I | Inr v \<Rightarrow> ?done) (store e')
      | Unfinished e' \<Rightarrow> ?I (store e') | Panicked e' \<Rightarrow> ?I (store e')"
      using after grown_trans[OF grown] grown_rest[OF grown]
      by (cases "?fut dl e1") (auto split: sum.splits)
  qed
  moreover have "resilient_migrate oc cfg backend (instrumented_relational (postgres_relational pool) backend) ms
      = execute oc cfg ''relational'' backend ''migrate'' ?fut"
    by (simp add: resilient_migrate_def instrumented_relational_def postgres_relational_def)
  ultimately show ?thesis
    using execute_leaves[where I = ?I and Q = "\<lambda>_. ?done"] call grown_refl by metis
qed

end
