(* ===== verification/Migration_Race.thy ===== *)
theory Migration_Race
  imports Migration_Faults
begin

text \<open>
  Several instances of the program that migrate the same PostgreSQL database at the same time:
  \<open>PostgresRelationalStore::migrate\<close> (\<^verbatim>\<open>rust/src/relational.rs\<close>) as one step per awaited
  statement, under the isolation the server documents. A transaction sees what is committed; the
  primary key of \<open>schema_migrations\<close> makes an insertion wait for a transaction that has inserted
  the same version and not ended, and refuses a version that is committed.
\<close>

section \<open>Steps\<close>

text \<open>
  Where an instance is: about to look up the next version, to begin a transaction for a migration
  it did not find, to run its statement, to insert its version, to commit; it has returned, or has
  returned an error. The rest of its migrations comes with it.
\<close>

datatype progress = Checking "migration list" | Opening migration "migration list"
  | Executing migration "migration list" | Recording migration "migration list"
  | Committing migration "migration list" | Migrated | Gave_up

record migration_race =
  db_log :: "(string \<times> string) list"
  at_stage :: "nat \<Rightarrow> progress"

definition migrators :: "(string \<times> string) list \<Rightarrow> (nat \<Rightarrow> migration list) \<Rightarrow> migration_race" where
  "migrators log0 jobs = \<lparr>db_log = log0, at_stage = (\<lambda>i. Checking (jobs i))\<rparr>"

definition recorded :: "migration_race \<Rightarrow> string set" where
  "recorded s = fst ` set (db_log s)"

abbreviation moved :: "migration_race \<Rightarrow> nat \<Rightarrow> progress \<Rightarrow> migration_race" where
  "moved s i p \<equiv> s\<lparr>at_stage := (at_stage s)(i := p)\<rparr>"

inductive migrator_step :: "migration_race \<Rightarrow> migration_race \<Rightarrow> bool" where
  all_done: "at_stage s i = Checking [] \<Longrightarrow> migrator_step s (moved s i Migrated)"
| found: "at_stage s i = Checking (m # ms) \<Longrightarrow> version m \<in> recorded s \<Longrightarrow>
    migrator_step s (moved s i (Checking ms))"
| not_found: "at_stage s i = Checking (m # ms) \<Longrightarrow> version m \<notin> recorded s \<Longrightarrow>
    migrator_step s (moved s i (Opening m ms))"
| begun: "at_stage s i = Opening m ms \<Longrightarrow> migrator_step s (moved s i (Executing m ms))"
| ran: "at_stage s i = Executing m ms \<Longrightarrow> migrator_step s (moved s i (Recording m ms))"
| inserted: "at_stage s i = Recording m ms \<Longrightarrow> version m \<notin> recorded s \<Longrightarrow>
    \<forall>j m' ms'. at_stage s j = Committing m' ms' \<longrightarrow> version m' \<noteq> version m \<Longrightarrow>
    migrator_step s (moved s i (Committing m ms))"
| duplicate: "at_stage s i = Recording m ms \<Longrightarrow> version m \<in> recorded s \<Longrightarrow>
    migrator_step s (moved s i Gave_up)"
| committed: "at_stage s i = Committing m ms \<Longrightarrow>
    migrator_step s (moved (s\<lparr>db_log := db_log s @ [entry m]\<rparr>) i (Checking ms))"

text \<open>A statement that fails or a connection that is lost; the transaction is rolled back.\<close>

inductive interrupted :: "migration_race \<Rightarrow> migration_race \<Rightarrow> bool" where
  "at_stage s i \<noteq> Migrated \<Longrightarrow> interrupted s (moved s i Gave_up)"

definition race_step :: "migration_race \<Rightarrow> migration_race \<Rightarrow> bool" where
  "race_step s t \<longleftrightarrow> migrator_step s t \<or> interrupted s t"

fun to_do :: "progress \<Rightarrow> migration list" where
  "to_do (Checking ms) = ms"
| "to_do (Opening m ms) = m # ms"
| "to_do (Executing m ms) = m # ms"
| "to_do (Recording m ms) = m # ms"
| "to_do (Committing m ms) = m # ms"
| "to_do _ = []"

section \<open>The invariant\<close>

text \<open>
  Versions are recorded once; one that is about to be committed is not recorded, and only one
  instance is about to commit it; what an instance has behind it is recorded.
\<close>

definition race_ok :: "(string \<times> string) list \<Rightarrow> (nat \<Rightarrow> migration list) \<Rightarrow> migration_race \<Rightarrow> bool" where
  "race_ok log0 jobs s \<longleftrightarrow>
     distinct (map fst (db_log s))
     \<and> (\<forall>i m ms. at_stage s i = Committing m ms \<longrightarrow> version m \<notin> recorded s)
     \<and> (\<forall>i j m ms m' ms'. at_stage s i = Committing m ms \<longrightarrow> at_stage s j = Committing m' ms' \<longrightarrow>
          version m = version m' \<longrightarrow> i = j)
     \<and> (\<forall>i. at_stage s i \<noteq> Gave_up \<longrightarrow>
          (\<exists>past. jobs i = past @ to_do (at_stage s i) \<and> version ` set past \<subseteq> recorded s))
     \<and> (\<exists>new. db_log s = log0 @ new \<and> set new \<subseteq> (\<Union>i. entry ` set (jobs i)))"

lemma race_ok_start: "distinct (map fst log0) \<Longrightarrow> race_ok log0 jobs (migrators log0 jobs)"
  by (simp add: race_ok_def migrators_def)

text \<open>One instance moves on, the log is as it was.\<close>

lemma race_ok_move:
  assumes ok: "race_ok log0 jobs s"
    and p: "p \<noteq> Gave_up \<Longrightarrow> to_do (at_stage s i) = to_do p \<and> at_stage s i \<noteq> Gave_up
      \<or> (\<exists>m. to_do (at_stage s i) = m # to_do p \<and> version m \<in> recorded s \<and> at_stage s i \<noteq> Gave_up)"
    and commits: "\<And>m ms. p = Committing m ms \<Longrightarrow> version m \<notin> recorded s
      \<and> (\<forall>j m' ms'. at_stage s j = Committing m' ms' \<longrightarrow> version m' \<noteq> version m)"
  shows "race_ok log0 jobs (moved s i p)"
proof -
  have past: "\<exists>past. jobs j = past @ to_do (at_stage (moved s i p) j) \<and> version ` set past \<subseteq> recorded s"
    if "at_stage (moved s i p) j \<noteq> Gave_up" for j
  proof (cases "j = i")
    case True
    with that have "p \<noteq> Gave_up" by simp
    from p[OF this] obtain past where past: "jobs i = past @ to_do (at_stage s i)" "version ` set past \<subseteq> recorded s"
      using ok by (auto simp: race_ok_def)
    from p[OF \<open>p \<noteq> Gave_up\<close>] consider "to_do (at_stage s i) = to_do p"
      | m where "to_do (at_stage s i) = m # to_do p" "version m \<in> recorded s" by blast
    then show ?thesis
    proof cases
      case 1
      with past True show ?thesis by auto
    next
      case 2
      with past True show ?thesis by (intro exI[of _ "past @ [m]"]) auto
    qed
  qed (use ok that in \<open>auto simp: race_ok_def\<close>)
  have "recorded (moved s i p) = recorded s" by (simp add: recorded_def)
  with ok past commits show ?thesis
    unfolding race_ok_def by (auto split: if_splits) metis+
qed

lemma race_ok_commit:
  assumes ok: "race_ok log0 jobs s" and pc: "at_stage s i = Committing m ms"
  shows "race_ok log0 jobs (moved (s\<lparr>db_log := db_log s @ [entry m]\<rparr>) i (Checking ms))"
proof -
  let ?t = "moved (s\<lparr>db_log := db_log s @ [entry m]\<rparr>) i (Checking ms)"
  have rec: "recorded ?t = insert (version m) (recorded s)" by (simp add: recorded_def entry_def)
  obtain past where past: "jobs i = past @ m # ms" "version ` set past \<subseteq> recorded s"
    using ok pc by (auto simp: race_ok_def dest: spec[of _ i])
  obtain new where new: "db_log s = log0 @ new" "set new \<subseteq> (\<Union>i. entry ` set (jobs i))"
    using ok by (auto simp: race_ok_def)
  have "distinct (map fst (db_log ?t))"
    using ok pc by (auto simp: race_ok_def recorded_def entry_def)
  moreover have "version m' \<notin> recorded ?t" if "at_stage ?t j = Committing m' ms'" for j m' ms'
    using ok pc that unfolding rec race_ok_def by (auto split: if_splits)
  moreover have "j = k" if "at_stage ?t j = Committing m1 ms1" "at_stage ?t k = Committing m2 ms2" "version m1 = version m2"
    for j k m1 ms1 m2 ms2
    using ok that unfolding race_ok_def by (auto split: if_splits)
  moreover have "\<exists>past. jobs j = past @ to_do (at_stage ?t j) \<and> version ` set past \<subseteq> recorded ?t"
    if "at_stage ?t j \<noteq> Gave_up" for j
  proof (cases "j = i")
    case True
    with past show ?thesis unfolding rec by (intro exI[of _ "past @ [m]"]) auto
  next
    case False
    with ok that show ?thesis unfolding rec race_ok_def by fastforce
  qed
  moreover have "db_log ?t = log0 @ (new @ [entry m])" by (simp add: new)
  moreover have "entry m \<in> entry ` set (jobs i)" using past(1) by simp
  then have "set (new @ [entry m]) \<subseteq> (\<Union>i. entry ` set (jobs i))" using new(2) by auto
  ultimately show ?thesis unfolding race_ok_def by blast
qed

lemma race_ok_step:
  assumes "race_step s t" and ok: "race_ok log0 jobs s"
  shows "race_ok log0 jobs t"
  using assms(1) unfolding race_step_def
proof
  assume "migrator_step s t"
  then show ?thesis
  proof cases
    case (committed i m ms)
    then show ?thesis using race_ok_commit[OF ok] by simp
  qed (auto intro!: race_ok_move[OF ok])
next
  assume "interrupted s t"
  then show ?thesis by cases (auto intro!: race_ok_move[OF ok])
qed

lemma race_ok_run:
  assumes "race_step\<^sup>*\<^sup>* (migrators log0 jobs) s" and "distinct (map fst log0)"
  shows "race_ok log0 jobs s"
  using assms(1) by (induction rule: rtranclp_induct) (blast intro: race_ok_start assms(2) race_ok_step)+

lemma race_okD:
  assumes "race_ok log0 jobs s"
  shows "distinct (map fst (db_log s))"
    and "\<exists>new. db_log s = log0 @ new \<and> set new \<subseteq> (\<Union>i. (\<lambda>m. (version m, up_sql m)) ` set (jobs i))"
    and "at_stage s i = Migrated \<Longrightarrow> version ` set (jobs i) \<subseteq> fst ` set (db_log s)"
proof -
  have entry: "entry = (\<lambda>m. (version m, up_sql m))" by (simp add: fun_eq_iff entry_def)
  show "distinct (map fst (db_log s))" using assms by (simp add: race_ok_def)
  show "\<exists>new. db_log s = log0 @ new \<and> set new \<subseteq> (\<Union>i. (\<lambda>m. (version m, up_sql m)) ` set (jobs i))"
    using assms unfolding race_ok_def entry by (elim conjE)
  assume "at_stage s i = Migrated"
  moreover have "at_stage s i \<noteq> Gave_up \<longrightarrow>
      (\<exists>past. jobs i = past @ to_do (at_stage s i) \<and> version ` set past \<subseteq> recorded s)"
    using assms unfolding race_ok_def by (elim conjE) (erule spec)
  ultimately show "version ` set (jobs i) \<subseteq> fst ` set (db_log s)" by (auto simp: recorded_def)
qed

section \<open>Progress\<close>

text \<open>Some step is possible without an interruption, unless every instance has ended.\<close>

lemma race_progress:
  assumes "at_stage s i \<noteq> Migrated" and "at_stage s i \<noteq> Gave_up"
  shows "\<exists>t. migrator_step s t"
proof (cases "at_stage s i")
  case (Checking ms)
  then show ?thesis
    by (cases ms) (blast intro: all_done, metis found not_found)
next
  case (Recording m ms)
  consider "version m \<in> recorded s"
    | j m' ms' where "at_stage s j = Committing m' ms'"
    | "version m \<notin> recorded s" "\<forall>j m' ms'. at_stage s j = Committing m' ms' \<longrightarrow> version m' \<noteq> version m"
    by blast
  then show ?thesis by cases (blast intro: duplicate committed inserted Recording)+
qed (use assms in \<open>blast intro: begun ran committed\<close>)+

text \<open>The steps of one instance alone record what \<open>migrate\<close> is proved to record.\<close>

lemma solo_run:
  assumes "at_stage s i = Checking ms" and "\<forall>j m' ms'. at_stage s j \<noteq> Committing m' ms'"
  shows "migrator_step\<^sup>*\<^sup>* s
    (s\<lparr>db_log := db_log s @ map entry (fresh_migrations (recorded s) ms), at_stage := (at_stage s)(i := Migrated)\<rparr>)"
  using assms
proof (induction ms arbitrary: s)
  case Nil
  have "migrator_step s (moved s i Migrated)" by (rule all_done[OF Nil.prems(1)])
  then show ?case by (simp add: r_into_rtranclp fun_upd_def)
next
  case (Cons m ms)
  show ?case
  proof (cases "version m \<in> recorded s")
    case True
    have "migrator_step s (moved s i (Checking ms))" by (rule found[OF Cons.prems(1) True])
    moreover have "migrator_step\<^sup>*\<^sup>* (moved s i (Checking ms))
        (s\<lparr>db_log := db_log s @ map entry (fresh_migrations (recorded s) (m # ms)), at_stage := (at_stage s)(i := Migrated)\<rparr>)"
      using Cons.IH[of "moved s i (Checking ms)"] Cons.prems(2) True
      by (simp add: recorded_def fun_upd_def cong: if_cong)
    ultimately show ?thesis by (rule converse_rtranclp_into_rtranclp)
  next
    case False
    let ?t = "moved (s\<lparr>db_log := db_log s @ [entry m]\<rparr>) i (Checking ms)"
    have look: "migrator_step s (moved s i (Opening m ms))" by (rule not_found[OF Cons.prems(1) False])
    have opened: "migrator_step (moved s i (Opening m ms)) (moved s i (Executing m ms))"
      using begun[of "moved s i (Opening m ms)" i m ms] by simp
    have run: "migrator_step (moved s i (Executing m ms)) (moved s i (Recording m ms))"
      using ran[of "moved s i (Executing m ms)" i m ms] by simp
    have ins: "migrator_step (moved s i (Recording m ms)) (moved s i (Committing m ms))"
      using inserted[of "moved s i (Recording m ms)" i m ms] False Cons.prems(2) by (auto simp: recorded_def)
    have com: "migrator_step (moved s i (Committing m ms)) ?t"
      using committed[of "moved s i (Committing m ms)" i m ms] by simp
    note onward = converse_rtranclp_into_rtranclp[where r = migrator_step]
    have "migrator_step\<^sup>*\<^sup>* s ?t"
      by (rule onward[OF look onward[OF opened onward[OF run onward[OF ins r_into_rtranclp[where r = migrator_step, OF com]]]]])
    moreover let ?u = "?t\<lparr>db_log := db_log ?t @ map entry (fresh_migrations (recorded ?t) ms),
      at_stage := (at_stage ?t)(i := Migrated)\<rparr>"
    have "migrator_step\<^sup>*\<^sup>* ?t ?u" by (rule Cons.IH) (use Cons.prems(2) in simp_all)
    ultimately have "migrator_step\<^sup>*\<^sup>* s ?u" by (rule rtranclp_trans)
    moreover have "recorded ?t = insert (version m) (recorded s)" by (simp add: recorded_def entry_def)
    then have "?u = s\<lparr>db_log := db_log s @ map entry (fresh_migrations (recorded s) (m # ms)),
        at_stage := (at_stage s)(i := Migrated)\<rparr>"
      using False by (simp add: fun_upd_def cong: if_cong)
    ultimately show ?thesis by (simp only:)
  qed
qed

text \<open>
  Instances with the same migration, started together: two look the version up before one
  of them has committed, and the other gets an error where it would have skipped the migration.
\<close>

lemma loser_gives_up:
  "\<exists>s. migrator_step\<^sup>*\<^sup>* (migrators [] (\<lambda>_. [m])) s
     \<and> at_stage s 0 = Migrated \<and> at_stage s 1 = Gave_up \<and> at_stage s 2 = Checking [m] \<and> db_log s = [entry m]"
proof -
  let ?s = "migrators [] (\<lambda>_. [m])"
  let ?s1 = "moved ?s 1 (Opening m [])"
  let ?s2 = "moved ?s1 1 (Executing m [])"
  let ?s3 = "moved ?s2 1 (Recording m [])"
  let ?s4 = "?s3\<lparr>db_log := [entry m], at_stage := (at_stage ?s3)(0 := Migrated)\<rparr>"
  have "migrator_step ?s ?s1" by (rule not_found) (simp_all add: migrators_def recorded_def)
  moreover have "migrator_step ?s1 ?s2" by (rule begun) simp
  moreover have "migrator_step ?s2 ?s3" by (rule ran) simp
  moreover have "migrator_step\<^sup>*\<^sup>* ?s3 ?s4"
    using solo_run[of ?s3 0 "[m]"] by (simp add: migrators_def recorded_def)
  moreover have "migrator_step ?s4 (moved ?s4 1 Gave_up)"
    by (rule duplicate) (simp_all add: recorded_def entry_def)
  ultimately have "migrator_step\<^sup>*\<^sup>* ?s (moved ?s4 1 Gave_up)"
    by (meson converse_rtranclp_into_rtranclp rtranclp.rtrancl_into_rtrancl)
  then show ?thesis by (intro exI[of _ "moved ?s4 1 Gave_up"]) (simp add: migrators_def)
qed

lemma race_step_of_migrator: "migrator_step\<^sup>*\<^sup>* s t \<Longrightarrow> race_step\<^sup>*\<^sup>* s t"
  by (induction rule: rtranclp_induct) (auto simp: race_step_def intro: rtranclp.rtrancl_into_rtrancl)

end
