(* ===== verification/Blob_Store.thy ===== *)
theory Blob_Store
  imports Async_Ops Health_Probe "HOL-Library.Sublist"
begin

text \<open>
  The blob contract: the trait and its in-memory backend (\<^verbatim>\<open>rust/src/blob.rs\<close>), the
  instrumented and the resilient wrappers, the contract and its interpretations.
\<close>

record metadata =
  content_type :: "string option"
  custom :: "(string, string) hashmap"

definition default_metadata :: metadata where
  "default_metadata = \<lparr>content_type = None, custom = []\<rparr>"

definition unwrap_or_default :: "metadata option \<Rightarrow> metadata" where
  "unwrap_or_default m = (case m of Some meta \<Rightarrow> meta | None \<Rightarrow> default_metadata)"

record 's blob_store =
  bs_put :: "string \<Rightarrow> bytes \<Rightarrow> metadata option \<Rightarrow> ('s, unit) future"
  bs_get :: "string \<Rightarrow> ('s, (bytes \<times> metadata) option) future"
  bs_delete :: "string \<Rightarrow> ('s, unit) future"
  bs_list :: "string option \<Rightarrow> ('s, string list) future"
  bs_presign_url :: "string \<Rightarrow> duration \<Rightarrow> ('s, string) future"
  bs_is_healthy :: "('s, health_status) future"

section \<open>The in-memory store\<close>

record blob_data =
  bd_data :: bytes
  bd_metadata :: metadata

type_synonym blobs = "(string, blob_data) hashmap"

definition mem_put ::
  "string \<Rightarrow> bytes \<Rightarrow> metadata option \<Rightarrow> blobs \<Rightarrow> (unit result \<times> blobs) option" where
  "mem_put key dat meta bs =
     Some (Inr (), hm_insert key \<lparr>bd_data = dat, bd_metadata = unwrap_or_default meta\<rparr> bs)"

definition mem_blob_get :: "string \<Rightarrow> blobs \<Rightarrow> ((bytes \<times> metadata) option result \<times> blobs) option" where
  "mem_blob_get key bs =
     Some (Inr (map_option (\<lambda>b. (bd_data b, bd_metadata b)) (hm_get bs key)), bs)"

definition mem_blob_delete :: "string \<Rightarrow> blobs \<Rightarrow> (unit result \<times> blobs) option" where
  "mem_blob_delete key bs = Some (Inr (), hm_remove key bs)"

definition mem_list :: "string option \<Rightarrow> blobs \<Rightarrow> (string list result \<times> blobs) option" where
  "mem_list pref bs =
     (let keys = hm_keys bs;
          keys' = (case pref of Some p \<Rightarrow> filter (\<lambda>k. prefix p k) keys | None \<Rightarrow> keys)
      in Some (Inr (sort keys'), bs))"

definition mem_presign :: "string \<Rightarrow> duration \<Rightarrow> blobs \<Rightarrow> (string result \<times> blobs) option" where
  "mem_presign key expiry bs = Some (Inr (''memory://'' @ key), bs)"

definition memory_blob :: "duration \<Rightarrow> blobs blob_store" where
  "memory_blob lat =
     \<lparr>bs_put = (\<lambda>key dat meta. atomic lat (mem_put key dat meta)),
      bs_get = (\<lambda>key. atomic lat (mem_blob_get key)),
      bs_delete = (\<lambda>key. atomic lat (mem_blob_delete key)),
      bs_list = (\<lambda>pref. atomic lat (mem_list pref)),
      bs_presign_url = (\<lambda>key expiry. atomic lat (mem_presign key expiry)),
      bs_is_healthy = memory_is_healthy ''blob'' lat\<rparr>"

section \<open>The instrumented store\<close>

definition instrumented_blob :: "'s blob_store \<Rightarrow> string \<Rightarrow> 's blob_store" where
  "instrumented_blob inner backend =
     \<lparr>bs_put = (\<lambda>key dat meta.
        instrumented BlobOperationDuration ''blob'' ''put'' backend (bs_put inner key dat meta)),
      bs_get = (\<lambda>key.
        instrumented BlobOperationDuration ''blob'' ''get'' backend (bs_get inner key)),
      bs_delete = (\<lambda>key.
        instrumented BlobOperationDuration ''blob'' ''delete'' backend (bs_delete inner key)),
      bs_list = (\<lambda>pref.
        instrumented BlobOperationDuration ''blob'' ''list'' backend (bs_list inner pref)),
      bs_presign_url = (\<lambda>key expiry.
        instrumented BlobOperationDuration ''blob'' ''presign_url'' backend
          (bs_presign_url inner key expiry)),
      bs_is_healthy = instrumented_health ''blob'' backend (bs_is_healthy inner)\<rparr>"

section \<open>The resilient store\<close>

definition resilient_blob_put ::
  "bool \<Rightarrow> resilience_config \<Rightarrow> string \<Rightarrow> 's blob_store \<Rightarrow> string \<Rightarrow> bytes \<Rightarrow> metadata option
     \<Rightarrow> ('s, unit) guarded_call" where
  "resilient_blob_put oc cfg backend s key dat meta =
     execute oc cfg ''blob'' backend ''put'' (bs_put s key dat meta)"

definition resilient_blob_get ::
  "bool \<Rightarrow> resilience_config \<Rightarrow> string \<Rightarrow> 's blob_store \<Rightarrow> string
     \<Rightarrow> ('s, (bytes \<times> metadata) option) guarded_call" where
  "resilient_blob_get oc cfg backend s key = execute oc cfg ''blob'' backend ''get'' (bs_get s key)"

definition resilient_blob_delete ::
  "bool \<Rightarrow> resilience_config \<Rightarrow> string \<Rightarrow> 's blob_store \<Rightarrow> string \<Rightarrow> ('s, unit) guarded_call" where
  "resilient_blob_delete oc cfg backend s key =
     execute oc cfg ''blob'' backend ''delete'' (bs_delete s key)"

definition resilient_blob_list ::
  "bool \<Rightarrow> resilience_config \<Rightarrow> string \<Rightarrow> 's blob_store \<Rightarrow> string option
     \<Rightarrow> ('s, string list) guarded_call" where
  "resilient_blob_list oc cfg backend s pref =
     execute oc cfg ''blob'' backend ''list'' (bs_list s pref)"

definition resilient_blob_presign_url ::
  "bool \<Rightarrow> resilience_config \<Rightarrow> string \<Rightarrow> 's blob_store \<Rightarrow> string \<Rightarrow> duration
     \<Rightarrow> ('s, string) guarded_call" where
  "resilient_blob_presign_url oc cfg backend s key expiry =
     execute oc cfg ''blob'' backend ''presign_url'' (bs_presign_url s key expiry)"

lemmas resilient_blob_defs = resilient_blob_put_def resilient_blob_get_def
  resilient_blob_delete_def resilient_blob_list_def resilient_blob_presign_url_def

section \<open>The contract\<close>

type_synonym blob_map = "string \<Rightarrow> (bytes \<times> metadata) option"

definition matching_keys :: "string option \<Rightarrow> blob_map \<Rightarrow> string list" where
  "matching_keys pref m =
     sorted_list_of_set {k \<in> dom m. case pref of Some p \<Rightarrow> prefix p k | None \<Rightarrow> True}"

definition spec_put :: "string \<Rightarrow> bytes \<Rightarrow> metadata option \<Rightarrow> blob_map \<Rightarrow> unit \<times> blob_map" where
  "spec_put k d meta m = ((), m(k \<mapsto> (d, unwrap_or_default meta)))"

definition spec_blob_get :: "string \<Rightarrow> blob_map \<Rightarrow> (bytes \<times> metadata) option \<times> blob_map" where
  "spec_blob_get k m = (m k, m)"

definition spec_blob_delete :: "string \<Rightarrow> blob_map \<Rightarrow> unit \<times> blob_map" where
  "spec_blob_delete k m = ((), m(k := None))"

definition spec_list :: "string option \<Rightarrow> blob_map \<Rightarrow> string list \<times> blob_map" where
  "spec_list pref m = (matching_keys pref m, m)"

lemmas blob_spec_defs = spec_put_def spec_blob_get_def spec_blob_delete_def spec_list_def

locale blob_contract =
  fixes s :: "'s blob_store" and ok :: "'s \<Rightarrow> bool" and \<alpha> :: "'s \<Rightarrow> blob_map" and L :: duration
  assumes put_serves: "serves ok \<alpha> L (bs_put s k d meta) (spec_put k d meta)"
    and get_serves: "serves ok \<alpha> L (bs_get s k) (spec_blob_get k)"
    and delete_serves: "serves ok \<alpha> L (bs_delete s k) (spec_blob_delete k)"
    and list_serves: "serves ok \<alpha> L (bs_list s pref) (spec_list pref)"
begin

lemmas contract_serves = put_serves get_serves delete_serves list_serves

lemma instrumented_contract: "blob_contract (instrumented_blob s backend) ok \<alpha> L"
  by unfold_locales (simp_all add: instrumented_blob_def serves_instrumented contract_serves)

end

datatype blob_call = BlobPut string bytes "metadata option" | BlobGet string | BlobDelete string
  | BlobList "string option"

datatype blob_reply = BlobDone | BlobValue "(bytes \<times> metadata) option" | BlobKeys "string list"

fun blob_client ::
  "bool \<Rightarrow> resilience_config \<Rightarrow> string \<Rightarrow> 's blob_store \<Rightarrow> blob_call \<Rightarrow> ('s, blob_reply) guarded_call" where
  "blob_client oc cfg b s (BlobPut k d meta) =
     map_call (\<lambda>_. BlobDone) (resilient_blob_put oc cfg b s k d meta)"
| "blob_client oc cfg b s (BlobGet k) = map_call BlobValue (resilient_blob_get oc cfg b s k)"
| "blob_client oc cfg b s (BlobDelete k) = map_call (\<lambda>_. BlobDone) (resilient_blob_delete oc cfg b s k)"
| "blob_client oc cfg b s (BlobList pref) = map_call BlobKeys (resilient_blob_list oc cfg b s pref)"

fun blob_meaning :: "blob_call \<Rightarrow> blob_map \<Rightarrow> blob_reply \<times> blob_map" where
  "blob_meaning (BlobPut k d meta) m = (BlobDone, m(k \<mapsto> (d, unwrap_or_default meta)))"
| "blob_meaning (BlobGet k) m = (BlobValue (m k), m)"
| "blob_meaning (BlobDelete k) m = (BlobDone, m(k := None))"
| "blob_meaning (BlobList pref) m = (BlobKeys (matching_keys pref m), m)"

locale blob_guarded = blob_contract +
  fixes oc :: bool and cfg :: resilience_config and backend :: string
  assumes enough_time: "L \<le> from_secs (operation_timeout_seconds cfg)"
begin

lemma client_serves: "serves_call ok \<alpha> (blob_client oc cfg backend s c) (blob_meaning c)"
proof -
  note ex = serves_map_call[OF serves_execute[OF _ enough_time]]
  have "serves_call ok \<alpha> (blob_client oc cfg backend s c) (\<lambda>m. blob_meaning c m)"
    using ex[OF put_serves] ex[OF get_serves] ex[OF delete_serves] ex[OF list_serves]
    by (cases c) (simp_all add: resilient_blob_defs blob_spec_defs)
  then show ?thesis .
qed

lemma client_run:
  assumes "ok (store e)" and "cb_state cb \<noteq> Open"
  shows "\<exists>cb' e'. run_calls (blob_client oc cfg backend s) cs (cb, e)
        = Some (map Inr (fst (run_spec blob_meaning cs (\<alpha> (store e)))), (cb', e'))
      \<and> \<alpha> (store e') = snd (run_spec blob_meaning cs (\<alpha> (store e)))
      \<and> ok (store e') \<and> cb_state cb' \<noteq> Open"
  using client_serves assms by (rule run_calls_serve)

end

section \<open>The in-memory store keeps the contract\<close>

definition blob_view :: "blobs \<Rightarrow> blob_map" where
  "blob_view bs k = map_option (\<lambda>b. (bd_data b, bd_metadata b)) (hm_get bs k)"

lemma dom_blob_view: "dom (blob_view bs) = dom (hm_get bs)"
  by (auto simp: blob_view_def dom_def)

lemma matching_keys_view:
  assumes "hm_ok bs"
  shows "matching_keys pref (blob_view bs) =
    sort (case pref of Some p \<Rightarrow> filter (\<lambda>k. prefix p k) (hm_keys bs) | None \<Rightarrow> hm_keys bs)"
    (is "_ = sort ?keys")
proof -
  have "set ?keys = {k \<in> dom (blob_view bs). case pref of Some p \<Rightarrow> prefix p k | None \<Rightarrow> True}"
    by (auto simp: set_hm_keys dom_blob_view split: option.splits)
  moreover have "distinct ?keys"
    using assms by (auto simp: hm_ok_def hm_keys_def split: option.splits)
  ultimately show ?thesis
    unfolding matching_keys_def
    using sorted_list_of_set_sort_remdups[of ?keys] by (simp only: distinct_remdups_id)
qed

lemma memory_blob_serves:
  "serves hm_ok blob_view lat (bs_put (memory_blob lat) k d meta) (spec_put k d meta)"
  "serves hm_ok blob_view lat (bs_get (memory_blob lat) k) (spec_blob_get k)"
  "serves hm_ok blob_view lat (bs_delete (memory_blob lat) k) (spec_blob_delete k)"
  "serves hm_ok blob_view lat (bs_list (memory_blob lat) pref) (spec_list pref)"
  by (simp add: memory_blob_def, rule serves_atomic,
      auto simp: mem_put_def mem_blob_get_def mem_blob_delete_def mem_list_def blob_spec_defs Let_def
        hm_ok_insert hm_ok_remove matching_keys_view blob_view_def fun_eq_iff)+

interpretation mem_blob: blob_contract "memory_blob lat" hm_ok blob_view lat for lat
  by unfold_locales (rule memory_blob_serves)+

interpretation instrumented_mem_blob:
  blob_contract "instrumented_blob (memory_blob lat) backend" hm_ok blob_view lat for lat backend
  by (rule mem_blob.instrumented_contract)

interpretation default_mem_blob:
  blob_guarded "instrumented_blob (memory_blob 1000000) backend" hm_ok blob_view 1000000 oc
    default_resilience backend
  for oc backend
  by unfold_locales (simp add: default_resilience_def default_value_defs from_secs_def)

end
