(* ===== verification/Resilient_Stores.thy ===== *)
theory Resilient_Stores
  imports Kv_Store Sorted_Set_Store Blob_Store Relational_Store Pubsub_Store
begin

text \<open>
  The resilient stores as objects (\<^verbatim>\<open>rust/src/resilience.rs\<close>): what each constructor makes
  of an inner store, the settings and a backend name. A method that goes through the executor is a
  guarded call; \<open>is_healthy\<close>, \<open>subscribe\<close> and \<open>unsubscribe\<close> are the inner store's, so no breaker,
  timeout or retry stands around them. The breaker is the one the executor starts with.
\<close>

record 's resilient_kv_store =
  rkv_get :: "string \<Rightarrow> ('s, bytes option) guarded_call"
  rkv_set :: "string \<Rightarrow> bytes \<Rightarrow> duration option \<Rightarrow> ('s, unit) guarded_call"
  rkv_delete :: "string \<Rightarrow> ('s, unit) guarded_call"
  rkv_exists :: "string \<Rightarrow> ('s, bool) guarded_call"
  rkv_set_if_not_exists :: "string \<Rightarrow> bytes \<Rightarrow> duration option \<Rightarrow> ('s, bool) guarded_call"
  rkv_is_healthy :: "('s, health_status) future"
  rkv_breaker :: circuit_breaker

definition resilient_kv_new ::
  "bool \<Rightarrow> 's kv_store \<Rightarrow> resilience_config \<Rightarrow> string \<Rightarrow> 's resilient_kv_store" where
  "resilient_kv_new oc inner cfg backend =
     \<lparr>rkv_get = resilient_kv_get oc cfg backend inner,
      rkv_set = resilient_kv_set oc cfg backend inner,
      rkv_delete = resilient_kv_delete oc cfg backend inner,
      rkv_exists = resilient_kv_exists oc cfg backend inner,
      rkv_set_if_not_exists = resilient_kv_set_if_not_exists oc cfg backend inner,
      rkv_is_healthy = kv_is_healthy inner,
      rkv_breaker = executor_breaker cfg\<rparr>"

record 's resilient_relational_store =
  rrs_query :: "string \<Rightarrow> param list \<Rightarrow> ('s, rows) guarded_call"
  rrs_execute :: "string \<Rightarrow> param list \<Rightarrow> ('s, nat) guarded_call"
  rrs_migrate :: "migration list \<Rightarrow> ('s, unit) guarded_call"
  rrs_is_healthy :: "('s, health_status) future"
  rrs_breaker :: circuit_breaker

definition resilient_relational_new ::
  "bool \<Rightarrow> 's relational_store \<Rightarrow> resilience_config \<Rightarrow> string \<Rightarrow> 's resilient_relational_store" where
  "resilient_relational_new oc inner cfg backend =
     \<lparr>rrs_query = resilient_query oc cfg backend inner,
      rrs_execute = resilient_execute oc cfg backend inner,
      rrs_migrate = resilient_migrate oc cfg backend inner,
      rrs_is_healthy = rs_is_healthy inner,
      rrs_breaker = executor_breaker cfg\<rparr>"

record 's resilient_sorted_set_store =
  rss_add :: "string \<Rightarrow> string \<Rightarrow> f64 \<Rightarrow> ('s, unit) guarded_call"
  rss_remove :: "string \<Rightarrow> string \<Rightarrow> ('s, unit) guarded_call"
  rss_range_by_score ::
    "string \<Rightarrow> f64 \<Rightarrow> f64 \<Rightarrow> nat option \<Rightarrow> ('s, (string \<times> f64) list) guarded_call"
  rss_count :: "string \<Rightarrow> ('s, nat) guarded_call"
  rss_remove_range :: "string \<Rightarrow> f64 \<Rightarrow> f64 \<Rightarrow> ('s, nat) guarded_call"
  rss_score :: "string \<Rightarrow> string \<Rightarrow> ('s, f64 option) guarded_call"
  rss_is_healthy :: "('s, health_status) future"
  rss_breaker :: circuit_breaker

definition resilient_sorted_set_new ::
  "bool \<Rightarrow> 's sorted_set_store \<Rightarrow> resilience_config \<Rightarrow> string \<Rightarrow> 's resilient_sorted_set_store" where
  "resilient_sorted_set_new oc inner cfg backend =
     \<lparr>rss_add = resilient_ss_add oc cfg backend inner,
      rss_remove = resilient_ss_remove oc cfg backend inner,
      rss_range_by_score = resilient_ss_range_by_score oc cfg backend inner,
      rss_count = resilient_ss_count oc cfg backend inner,
      rss_remove_range = resilient_ss_remove_range oc cfg backend inner,
      rss_score = resilient_ss_score oc cfg backend inner,
      rss_is_healthy = ss_is_healthy inner,
      rss_breaker = executor_breaker cfg\<rparr>"

record 's resilient_blob_store =
  rbs_put :: "string \<Rightarrow> bytes \<Rightarrow> metadata option \<Rightarrow> ('s, unit) guarded_call"
  rbs_get :: "string \<Rightarrow> ('s, (bytes \<times> metadata) option) guarded_call"
  rbs_delete :: "string \<Rightarrow> ('s, unit) guarded_call"
  rbs_list :: "string option \<Rightarrow> ('s, string list) guarded_call"
  rbs_presign_url :: "string \<Rightarrow> duration \<Rightarrow> ('s, string) guarded_call"
  rbs_is_healthy :: "('s, health_status) future"
  rbs_breaker :: circuit_breaker

definition resilient_blob_new ::
  "bool \<Rightarrow> 's blob_store \<Rightarrow> resilience_config \<Rightarrow> string \<Rightarrow> 's resilient_blob_store" where
  "resilient_blob_new oc inner cfg backend =
     \<lparr>rbs_put = resilient_blob_put oc cfg backend inner,
      rbs_get = resilient_blob_get oc cfg backend inner,
      rbs_delete = resilient_blob_delete oc cfg backend inner,
      rbs_list = resilient_blob_list oc cfg backend inner,
      rbs_presign_url = resilient_blob_presign_url oc cfg backend inner,
      rbs_is_healthy = bs_is_healthy inner,
      rbs_breaker = executor_breaker cfg\<rparr>"

record ('s, 'rx) resilient_pubsub_store =
  rps_publish :: "string \<Rightarrow> bytes \<Rightarrow> ('s, unit) guarded_call"
  rps_subscribe :: "string list \<Rightarrow> ('s, 'rx) future"
  rps_unsubscribe :: "string list \<Rightarrow> ('s, unit) future"
  rps_is_healthy :: "('s, health_status) future"
  rps_breaker :: circuit_breaker

definition resilient_pubsub_new ::
  "bool \<Rightarrow> ('s, 'rx) pubsub_store \<Rightarrow> resilience_config \<Rightarrow> string \<Rightarrow> ('s, 'rx) resilient_pubsub_store" where
  "resilient_pubsub_new oc inner cfg backend =
     \<lparr>rps_publish = resilient_publish oc cfg backend inner,
      rps_subscribe = ps_subscribe inner,
      rps_unsubscribe = ps_unsubscribe inner,
      rps_is_healthy = ps_is_healthy inner,
      rps_breaker = executor_breaker cfg\<rparr>"

end
