(* ===== verification/Facade_Run.thy ===== *)
theory Facade_Run
  imports Goy_Store Resilient_Stores
begin

text \<open>
  The facade at work: the stores \<open>from_config\<close> has selected and wrapped
  (\<^verbatim>\<open>rust/src/lib.rs\<close>), made into objects and called by one program. The world they share is
  the clock and the metric calls; each contract has its own breaker and its own state. The program
  is \<^verbatim>\<open>rust/examples/basic_usage.rs\<close>.
\<close>

section \<open>Opening the facade\<close>

text \<open>What a networked or file backend does once connected is a parameter.\<close>

record ('client, 'conn, 'pool, 's3, 'c, 'rx) networks =
  net_kv :: "'conn \<Rightarrow> kv_data kv_store"
  net_relational :: "'pool \<Rightarrow> unit relational_store"
  net_sorted_set :: "'conn \<Rightarrow> ss_data sorted_set_store"
  net_pubsub :: "'conn \<Rightarrow> 'client \<Rightarrow> ('c channels, 'rx) pubsub_store"
  net_local :: "string \<Rightarrow> blobs blob_store"
  net_s3 :: "'s3 \<Rightarrow> blobs blob_store"
  net_broadcast :: "('c, 'rx) broadcast"
  net_utc :: "duration \<Rightarrow> int"

record ('c, 'rx) stores =
  st_kv :: "kv_data resilient_kv_store"
  st_relational :: "unit resilient_relational_store"
  st_sorted_set :: "ss_data resilient_sorted_set_store"
  st_pubsub :: "('c channels, 'rx) resilient_pubsub_store"
  st_blob :: "blobs resilient_blob_store"

definition open_stores ::
  "bool \<Rightarrow> duration \<Rightarrow> ('client, 'conn, 'pool, 's3, 'c, 'rx) networks
     \<Rightarrow> ('client, 'conn, 'pool, 's3) goy_store \<Rightarrow> ('c, 'rx) stores" where
  "open_stores oc lat net g =
     \<lparr>st_kv = resilient_kv_new oc
        (instrumented_kv (case w_raw (gs_kv g) of MemoryKv \<Rightarrow> memory_kv lat | RedisKv c \<Rightarrow> net_kv net c)
          (w_instrumented_label (gs_kv g)))
        (w_resilience (gs_kv g)) (w_resilient_label (gs_kv g)),
      st_relational = resilient_relational_new oc
        (instrumented_relational
          (case w_raw (gs_relational g) of
             MemoryRelational \<Rightarrow> memory_relational lat
           | PostgresRelational p \<Rightarrow> net_relational net p)
          (w_instrumented_label (gs_relational g)))
        (w_resilience (gs_relational g)) (w_resilient_label (gs_relational g)),
      st_sorted_set = resilient_sorted_set_new oc
        (instrumented_sorted_set
          (case w_raw (gs_sorted_set g) of
             MemorySortedSet \<Rightarrow> memory_sorted_set lat
           | RedisSortedSet c \<Rightarrow> net_sorted_set net c)
          (w_instrumented_label (gs_sorted_set g)))
        (w_resilience (gs_sorted_set g)) (w_resilient_label (gs_sorted_set g)),
      st_pubsub = resilient_pubsub_new oc
        (instrumented_pubsub
          (case w_raw (gs_pubsub g) of
             MemoryPubsub \<Rightarrow> memory_pubsub (net_broadcast net) (net_utc net) lat
           | RedisPubsub c cl \<Rightarrow> net_pubsub net c cl)
          (w_instrumented_label (gs_pubsub g)))
        (w_resilience (gs_pubsub g)) (w_resilient_label (gs_pubsub g)),
      st_blob = resilient_blob_new oc
        (instrumented_blob
          (case w_raw (gs_blob g) of
             MemoryBlob \<Rightarrow> memory_blob lat
           | LocalBlob p \<Rightarrow> net_local net p
           | S3Blob c \<Rightarrow> net_s3 net c)
          (w_instrumented_label (gs_blob g)))
        (w_resilience (gs_blob g)) (w_resilient_label (gs_blob g))\<rparr>"

section \<open>A program over the facade\<close>

record 'c world =
  w_clock :: duration
  w_events :: "metric_event list"
  w_kv :: "circuit_breaker \<times> kv_data"
  w_relational :: "circuit_breaker \<times> unit"
  w_sorted_set :: "circuit_breaker \<times> ss_data"
  w_pubsub :: "circuit_breaker \<times> 'c channels"
  w_blob :: "circuit_breaker \<times> blobs"

definition fresh_world :: "('c, 'rx) stores \<Rightarrow> duration \<Rightarrow> 'c world" where
  "fresh_world S t =
     \<lparr>w_clock = t, w_events = [], w_kv = (rkv_breaker (st_kv S), []),
      w_relational = (rrs_breaker (st_relational S), ()),
      w_sorted_set = (rss_breaker (st_sorted_set S), []),
      w_pubsub = (rps_breaker (st_pubsub S), []), w_blob = (rbs_breaker (st_blob S), [])\<rparr>"

text \<open>A step of the program: a result and the world after it; \<open>None\<close> is a panic or a hang.\<close>

type_synonym ('c, 'a) step = "'c world \<Rightarrow> ('a result \<times> 'c world) option"

definition finish :: "'a \<Rightarrow> ('c, 'a) step" where
  "finish v w = Some (Inr v, w)"

text \<open>\<open>.await?\<close> and what follows it.\<close>

definition then_do :: "('c, 'a) step \<Rightarrow> ('a \<Rightarrow> ('c, 'b) step) \<Rightarrow> ('c, 'b) step" where
  "then_do m k w =
     (case m w of
        None \<Rightarrow> None
      | Some (Inl err, w') \<Rightarrow> Some (Inl err, w')
      | Some (Inr v, w') \<Rightarrow> k v w')"

text \<open>A guarded call on the contract that \<open>get\<close> reads from the world and \<open>put\<close> writes.\<close>

definition guarded_step ::
  "('c world \<Rightarrow> circuit_breaker \<times> 's) \<Rightarrow> (circuit_breaker \<times> 's \<Rightarrow> 'c world \<Rightarrow> 'c world)
     \<Rightarrow> ('s, 'a) guarded_call \<Rightarrow> ('c, 'a) step" where
  "guarded_step get put call w =
     (case call (fst (get w), \<lparr>clock = w_clock w, events = w_events w, store = snd (get w)\<rparr>) of
        Some (Returned r (cb, e)) \<Rightarrow>
          Some (r, put (cb, store e) (w\<lparr>w_clock := clock e, w_events := events e\<rparr>))
      | _ \<Rightarrow> None)"

text \<open>An unguarded future, whose result is taken as it is.\<close>

definition joined_step ::
  "('c world \<Rightarrow> circuit_breaker \<times> 's) \<Rightarrow> (circuit_breaker \<times> 's \<Rightarrow> 'c world \<Rightarrow> 'c world)
     \<Rightarrow> ('s, 'a) future \<Rightarrow> ('c, 'a result) step" where
  "joined_step get put fut w =
     (case fut None \<lparr>clock = w_clock w, events = w_events w, store = snd (get w)\<rparr> of
        Finished r e \<Rightarrow>
          Some (Inr r, put (fst (get w), store e) (w\<lparr>w_clock := clock e, w_events := events e\<rparr>))
      | _ \<Rightarrow> None)"

definition put_kv :: "circuit_breaker \<times> kv_data \<Rightarrow> 'c world \<Rightarrow> 'c world" where
  "put_kv x w = w\<lparr>w_kv := x\<rparr>"

definition put_relational :: "circuit_breaker \<times> unit \<Rightarrow> 'c world \<Rightarrow> 'c world" where
  "put_relational x w = w\<lparr>w_relational := x\<rparr>"

definition put_sorted_set :: "circuit_breaker \<times> ss_data \<Rightarrow> 'c world \<Rightarrow> 'c world" where
  "put_sorted_set x w = w\<lparr>w_sorted_set := x\<rparr>"

definition put_pubsub :: "circuit_breaker \<times> 'c channels \<Rightarrow> 'c world \<Rightarrow> 'c world" where
  "put_pubsub x w = w\<lparr>w_pubsub := x\<rparr>"

definition put_blob :: "circuit_breaker \<times> blobs \<Rightarrow> 'c world \<Rightarrow> 'c world" where
  "put_blob x w = w\<lparr>w_blob := x\<rparr>"

lemmas put_defs = put_kv_def put_relational_def put_sorted_set_def put_pubsub_def put_blob_def

text \<open>
  \<open>GoyStore::health_check\<close>: the five probes and their report. \<open>join!\<close> polls them in this order;
  the in-memory ones finish when first polled.
\<close>

definition check_health :: "('c, 'rx) stores \<Rightarrow> ('c, consolidated_health) step" where
  "check_health S =
     then_do (joined_step w_kv put_kv (rkv_is_healthy (st_kv S))) (\<lambda>kv_res.
     then_do (joined_step w_relational put_relational (rrs_is_healthy (st_relational S))) (\<lambda>rel_res.
     then_do (joined_step w_sorted_set put_sorted_set (rss_is_healthy (st_sorted_set S))) (\<lambda>ss_res.
     then_do (joined_step w_pubsub put_pubsub (rps_is_healthy (st_pubsub S))) (\<lambda>ps_res.
     then_do (joined_step w_blob put_blob (rbs_is_healthy (st_blob S))) (\<lambda>blob_res.
     finish (health_check kv_res rel_res ss_res ps_res blob_res))))))"

text \<open>The values the example prints.\<close>

record printed =
  pr_status :: "bytes option"
  pr_active_nodes :: "(string \<times> f64) list"
  pr_blob_url :: string
  pr_health :: consolidated_health

definition bytes_of :: "string \<Rightarrow> bytes" where
  "bytes_of s = map of_char s"

text \<open>1000.0, 1050.0, 900.0 and 1100.0 as bit patterns.\<close>

definition score_1000 :: f64 where "score_1000 = 0x408F400000000000"
definition score_1050 :: f64 where "score_1050 = 0x4090680000000000"
definition score_900 :: f64 where "score_900 = 0x408C200000000000"
definition score_1100 :: f64 where "score_1100 = 0x4091300000000000"

definition cluster_json :: bytes where
  "cluster_json = bytes_of (''{'' @ [CHR 34] @ ''cluster'' @ [CHR 34] @ '': '' @ [CHR 34] @ ''goy-alpha''
     @ [CHR 34] @ ''}'')"

definition basic_usage :: "('c, 'rx) stores \<Rightarrow> ('c, printed) step" where
  "basic_usage S =
     then_do (guarded_step w_kv put_kv
       (rkv_set (st_kv S) ''node:1:status'' (bytes_of ''active'') (Some (from_secs 60)))) (\<lambda>_.
     then_do (guarded_step w_kv put_kv (rkv_get (st_kv S) ''node:1:status'')) (\<lambda>val.
     then_do (guarded_step w_sorted_set put_sorted_set
       (rss_add (st_sorted_set S) ''nodes:heartbeat'' ''node-1'' score_1000)) (\<lambda>_.
     then_do (guarded_step w_sorted_set put_sorted_set
       (rss_add (st_sorted_set S) ''nodes:heartbeat'' ''node-2'' score_1050)) (\<lambda>_.
     then_do (guarded_step w_sorted_set put_sorted_set
       (rss_range_by_score (st_sorted_set S) ''nodes:heartbeat'' score_900 score_1100 None)) (\<lambda>active_nodes.
     then_do (guarded_step w_blob put_blob
       (rbs_put (st_blob S) ''configs/cluster.json'' cluster_json None)) (\<lambda>_.
     then_do (guarded_step w_blob put_blob
       (rbs_presign_url (st_blob S) ''configs/cluster.json'' (from_secs 300))) (\<lambda>blob_url.
     then_do (check_health S) (\<lambda>health.
     finish \<lparr>pr_status = val, pr_active_nodes = active_nodes, pr_blob_url = blob_url,
       pr_health = health\<rparr>))))))))"

section \<open>Programs over the in-memory facade\<close>

text \<open>
  The abstract world: a map, one ordered list per set, and a map of blobs. A step \<open>yields\<close> a value
  when, from every world that stands for \<open>x\<close> with no breaker open, it returns the value and leaves
  a world that stands for \<open>y\<close>.
\<close>

type_synonym model = "kv_map \<times> rankings \<times> blob_map"

definition stands_for :: "'c world \<Rightarrow> model \<Rightarrow> bool" where
  "stands_for w x \<longleftrightarrow>
     hm_ok (snd (w_kv w)) \<and> ss_ok (snd (w_sorted_set w)) \<and> hm_ok (snd (w_blob w))
     \<and> x = (hm_get (snd (w_kv w)), ss_rankings (snd (w_sorted_set w)), blob_view (snd (w_blob w)))
     \<and> cb_state (fst (w_kv w)) \<noteq> Open \<and> cb_state (fst (w_sorted_set w)) \<noteq> Open
     \<and> cb_state (fst (w_blob w)) \<noteq> Open
     \<and> cb_state (fst (w_relational w)) \<noteq> Open \<and> cb_state (fst (w_pubsub w)) \<noteq> Open"

definition yields :: "('c, 'a) step \<Rightarrow> model \<Rightarrow> 'a \<Rightarrow> model \<Rightarrow> bool" where
  "yields m x v y \<longleftrightarrow>
     (\<forall>w. stands_for w x \<longrightarrow> (\<exists>w'. m w = Some (Inr v, w') \<and> stands_for w' y))"

lemma yields_finish: "yields (finish v) x v x"
  by (simp add: yields_def finish_def)

lemma yields_then:
  assumes "yields m x v y" and "yields (k v) y u z"
  shows "yields (then_do m k) x u z"
  using assms unfolding yields_def then_do_def by fastforce

text \<open>
  The place of one contract in the world: what is read from it and written to it, and the part of
  the abstract world it stands for.
\<close>

locale contract_slot =
  fixes get :: "'c world \<Rightarrow> circuit_breaker \<times> 's" and put :: "circuit_breaker \<times> 's \<Rightarrow> 'c world \<Rightarrow> 'c world"
    and ok :: "'s \<Rightarrow> bool" and \<alpha> :: "'s \<Rightarrow> 'x" and part :: "model \<Rightarrow> 'x"
    and with_part :: "'x \<Rightarrow> model \<Rightarrow> model"
  assumes stands_read: "stands_for w x \<Longrightarrow>
      ok (snd (get w)) \<and> \<alpha> (snd (get w)) = part x \<and> cb_state (fst (get w)) \<noteq> Open"
    and stands_write: "stands_for w x \<Longrightarrow> ok s \<Longrightarrow> cb_state cb \<noteq> Open \<Longrightarrow>
      stands_for (put (cb, s) (w\<lparr>w_clock := t, w_events := evs\<rparr>)) (with_part (\<alpha> s) x)"
    and with_part_same: "with_part (part x) x = x"
begin

lemma yields_slot:
  assumes "serves_call ok \<alpha> call g"
  shows "yields (guarded_step get put call) x (fst (g (part x))) (with_part (snd (g (part x))) x)"
  unfolding yields_def
proof (intro allI impI)
  fix w :: "'c world"
  let ?e = "\<lparr>clock = w_clock w, events = w_events w, store = snd (get w)\<rparr>"
  assume w: "stands_for w x"
  obtain cb' e' where "call (fst (get w), ?e) = Some (Returned (Inr (fst (g (part x)))) (cb', e'))"
    "\<alpha> (store e') = snd (g (part x))" "ok (store e')" "cb_state cb' = Closed"
    using serves_callE[OF assms, of ?e "fst (get w)"] stands_read[OF w] by auto
  moreover from this have "stands_for (put (cb', store e') (w\<lparr>w_clock := clock e', w_events := events e'\<rparr>))
      (with_part (snd (g (part x))) x)"
    using stands_write[OF w, of "store e'" cb'] by simp
  ultimately show "\<exists>w'. guarded_step get put call w = Some (Inr (fst (g (part x))), w')
      \<and> stands_for w' (with_part (snd (g (part x))) x)"
    by (simp add: guarded_step_def)
qed

text \<open>An instrumented in-memory probe leaves every store as it is.\<close>

lemma yields_probe:
  "yields (joined_step get put (instrumented_health contract label (memory_is_healthy contract lat)))
    x (Inr (healthy contract ''memory'' 0)) x"
  unfolding yields_def
proof (intro allI impI)
  fix w :: "'c world"
  assume w: "stands_for w x"
  then have "stands_for (put (fst (get w), snd (get w)) (w\<lparr>w_clock := t, w_events := evs\<rparr>)) x" for t evs
    using stands_write[OF w, of "snd (get w)" "fst (get w)"] stands_read[OF w] by (simp add: with_part_same)
  then show "\<exists>w'. joined_step get put
        (instrumented_health contract label (memory_is_healthy contract lat)) w
      = Some (Inr (Inr (healthy contract ''memory'' 0)), w') \<and> stands_for w' x"
    by (simp add: joined_step_def instrumented_health_def memory_is_healthy_def atomic_def Let_def)
qed

end

interpretation kv_slot: contract_slot w_kv put_kv hm_ok hm_get fst "\<lambda>m x. (m, snd x)"
  by unfold_locales (auto simp: stands_for_def put_kv_def)

interpretation sorted_set_slot:
  contract_slot w_sorted_set put_sorted_set ss_ok ss_rankings "\<lambda>x. fst (snd x)" "\<lambda>r x. (fst x, r, snd (snd x))"
  by unfold_locales (auto simp: stands_for_def put_sorted_set_def)

interpretation blob_slot:
  contract_slot w_blob put_blob hm_ok blob_view "\<lambda>x. snd (snd x)" "\<lambda>b x. (fst x, fst (snd x), b)"
  by unfold_locales (auto simp: stands_for_def put_blob_def)

interpretation relational_slot:
  contract_slot w_relational put_relational "\<lambda>_. True" "\<lambda>_. ()" "\<lambda>_. ()" "\<lambda>_ x. x"
  by unfold_locales (auto simp: stands_for_def put_relational_def)

interpretation pubsub_slot: contract_slot w_pubsub put_pubsub "\<lambda>_. True" "\<lambda>_. ()" "\<lambda>_. ()" "\<lambda>_ x. x"
  by unfold_locales (auto simp: stands_for_def put_pubsub_def)

lemmas slot_probes = kv_slot.yields_probe relational_slot.yields_probe sorted_set_slot.yields_probe
  pubsub_slot.yields_probe blob_slot.yields_probe

section \<open>The in-memory facade\<close>

definition all_in_memory :: "('client, 'conn, 'pool, 's3) goy_store \<Rightarrow> bool" where
  "all_in_memory g \<longleftrightarrow>
     w_raw (gs_kv g) = MemoryKv \<and> w_raw (gs_relational g) = MemoryRelational
     \<and> w_raw (gs_sorted_set g) = MemorySortedSet \<and> w_raw (gs_pubsub g) = MemoryPubsub
     \<and> w_raw (gs_blob g) = MemoryBlob"

lemma from_config_resilience:
  assumes "from_config fs d cfg = Some (Inr g)"
  shows "w_resilience (gs_kv g) = cfg_resilience cfg" "w_resilience (gs_sorted_set g) = cfg_resilience cfg"
    "w_resilience (gs_blob g) = cfg_resilience cfg"
    "w_resilience (gs_relational g) = cfg_resilience cfg" "w_resilience (gs_pubsub g) = cfg_resilience cfg"
  using assms by (auto elim!: from_configE simp: wrap_def)

lemmas open_defs = open_stores_def resilient_kv_new_def resilient_relational_new_def
  resilient_sorted_set_new_def resilient_pubsub_new_def resilient_blob_new_def

lemma fresh_world_stands: "stands_for (fresh_world (open_stores oc lat net g) t) (\<lambda>_. None, \<lambda>_. [], \<lambda>_. None)"
  by (simp add: stands_for_def fresh_world_def open_defs executor_breaker_def cb_new_def hm_ok_Nil ss_ok_Nil
      fun_eq_iff ss_rankings_def blob_view_def)

lemma open_kv_yields:
  fixes g :: "('client, 'conn, 'pool, 's3) goy_store" and net :: "('client, 'conn, 'pool, 's3, 'c, 'rx) networks"
    and oc :: bool
  assumes "all_in_memory g" and "lat \<le> from_secs (operation_timeout_seconds (w_resilience (gs_kv g)))"
  defines "S \<equiv> open_stores oc lat net g"
  shows "yields (guarded_step w_kv put_kv (rkv_set (st_kv S) k v ttl)) (m, r, b) () (m(k \<mapsto> v), r, b)"
    and "yields (guarded_step w_kv put_kv (rkv_get (st_kv S) k)) (m, r, b) (m k) (m, r, b)"
  using kv_slot.yields_slot[OF serves_execute[OF serves_instrumented[OF memory_kv_serves(2)] assms(2)], where x = "(m, r, b)"]
    kv_slot.yields_slot[OF serves_execute[OF serves_instrumented[OF memory_kv_serves(1)] assms(2)], where x = "(m, r, b)"]
    assms(1)
  by (simp_all add: S_def open_defs all_in_memory_def resilient_kv_defs instrumented_kv_def spec_set_def
      spec_get_def)

lemma open_sorted_set_yields:
  fixes g :: "('client, 'conn, 'pool, 's3) goy_store" and net :: "('client, 'conn, 'pool, 's3, 'c, 'rx) networks"
    and oc :: bool
  assumes "all_in_memory g" and "lat \<le> from_secs (operation_timeout_seconds (w_resilience (gs_sorted_set g)))"
  defines "S \<equiv> open_stores oc lat net g"
  shows "yields (guarded_step w_sorted_set put_sorted_set (rss_add (st_sorted_set S) st mb scr))
      (m, r, b) () (m, r(st := rank_in mb scr (r st)), b)"
    and "OrderedScore lo \<le> OrderedScore hi \<Longrightarrow>
      yields (guarded_step w_sorted_set put_sorted_set (rss_range_by_score (st_sorted_set S) st lo hi limit))
        (m, r, b) (limited limit (filter (\<lambda>e. in_score_range lo hi (snd e)) (r st))) (m, r, b)"
  using sorted_set_slot.yields_slot[OF serves_execute[OF serves_instrumented[OF memory_ss_serves(1)] assms(2)],
      where x = "(m, r, b)"]
    sorted_set_slot.yields_slot[OF serves_execute[OF serves_instrumented[OF memory_ss_serves(3)] assms(2)],
      where x = "(m, r, b)"]
    assms(1)
  by (simp_all add: S_def open_defs all_in_memory_def resilient_ss_defs instrumented_sorted_set_def
      spec_ss_add_def spec_ss_range_def)

lemma memory_presign_serves:
  "serves hm_ok blob_view lat (bs_presign_url (memory_blob lat) k expiry) (\<lambda>m. (''memory://'' @ k, m))"
  by (simp add: memory_blob_def, rule serves_atomic, simp add: mem_presign_def)

lemma open_blob_yields:
  fixes g :: "('client, 'conn, 'pool, 's3) goy_store" and net :: "('client, 'conn, 'pool, 's3, 'c, 'rx) networks"
    and oc :: bool
  assumes "all_in_memory g" and "lat \<le> from_secs (operation_timeout_seconds (w_resilience (gs_blob g)))"
  defines "S \<equiv> open_stores oc lat net g"
  shows "yields (guarded_step w_blob put_blob (rbs_put (st_blob S) k dat meta))
      (m, r, b) () (m, r, b(k \<mapsto> (dat, unwrap_or_default meta)))"
    and "yields (guarded_step w_blob put_blob (rbs_presign_url (st_blob S) k expiry))
      (m, r, b) (''memory://'' @ k) (m, r, b)"
  using blob_slot.yields_slot[OF serves_execute[OF serves_instrumented[OF memory_blob_serves(1)] assms(2)],
      where x = "(m, r, b)"]
    blob_slot.yields_slot[OF serves_execute[OF serves_instrumented[OF memory_presign_serves] assms(2)],
      where x = "(m, r, b)"]
    assms(1)
  by (simp_all add: S_def open_defs all_in_memory_def resilient_blob_defs instrumented_blob_def
      spec_put_def)

lemma open_health_yields:
  fixes g :: "('client, 'conn, 'pool, 's3) goy_store" and net :: "('client, 'conn, 'pool, 's3, 'c, 'rx) networks"
    and oc :: bool
  assumes "all_in_memory g"
  shows "yields (check_health (open_stores oc lat net g)) x
    (health_check (Inr (healthy ''kv'' ''memory'' 0)) (Inr (healthy ''relational'' ''memory'' 0))
       (Inr (healthy ''sorted_set'' ''memory'' 0)) (Inr (healthy ''pubsub'' ''memory'' 0))
       (Inr (healthy ''blob'' ''memory'' 0))) x"
  unfolding check_health_def
  by (rule yields_then yields_finish
      | simp add: open_defs assms[unfolded all_in_memory_def] instrumented_kv_def instrumented_relational_def
          instrumented_sorted_set_def instrumented_pubsub_def instrumented_blob_def memory_kv_def
          memory_relational_def memory_sorted_set_def memory_pubsub_def memory_blob_def,
        rule slot_probes)+

lemma default_all_in_memory: "\<exists>g. from_config fs d default_config = Some (Inr g) \<and> all_in_memory g"
  by (simp add: from_config_def shared_redis_def redis_wanted_def default_config_def select_kv_def
      select_sorted_set_def select_pubsub_def select_relational_def select_blob_def Let_def
      all_in_memory_def wrap_def)

section \<open>The example\<close>

lemma example_ranking:
  "filter (\<lambda>e. in_score_range score_900 score_1100 (snd e))
     (rank_in ''node-2'' score_1050 (rank_in ''node-1'' score_1000 []))
   = [(''node-1'', score_1000), (''node-2'', score_1050)]"
  "OrderedScore score_900 \<le> OrderedScore score_1100"
  by code_simp+

lemma basic_usage_yields:
  assumes "from_config fs d cfg = Some (Inr g)" and "all_in_memory g"
    and "lat \<le> from_secs (operation_timeout_seconds (cfg_resilience cfg))"
  shows "\<exists>y. yields (basic_usage (open_stores oc lat net g)) (\<lambda>_. None, \<lambda>_. [], \<lambda>_. None)
    \<lparr>pr_status = Some (bytes_of ''active''),
     pr_active_nodes = [(''node-1'', score_1000), (''node-2'', score_1050)],
     pr_blob_url = ''memory://configs/cluster.json'',
     pr_health = health_check (Inr (healthy ''kv'' ''memory'' 0)) (Inr (healthy ''relational'' ''memory'' 0))
       (Inr (healthy ''sorted_set'' ''memory'' 0)) (Inr (healthy ''pubsub'' ''memory'' 0))
       (Inr (healthy ''blob'' ''memory'' 0))\<rparr> y"
proof -
  note time = assms(3)[folded from_config_resilience(1)[OF assms(1)]]
    assms(3)[folded from_config_resilience(2)[OF assms(1)]]
    assms(3)[folded from_config_resilience(3)[OF assms(1)]]
  note steps = open_kv_yields[OF assms(2) time(1)] open_sorted_set_yields[OF assms(2) time(2)]
    open_blob_yields[OF assms(2) time(3)] open_health_yields[OF assms(2)]
  show ?thesis
    unfolding basic_usage_def
    by (rule exI, (rule yields_then, rule steps, (rule example_ranking(2))?)+,
        simp only: fun_upd_same example_ranking(1) limited_def option.case append.simps, rule yields_finish)
qed

text \<open>
  On a facade made by \<open>from_config\<close> whose contracts are all in memory, as with the default
  configuration, the example program runs through its three contracts without an error: it reads
  back the status it set, lists both nodes in the order of their scores, gets the blob's URL, and
  reports all five contracts healthy.
\<close>

lemma basic_usage_prints:
  assumes "from_config fs d cfg = Some (Inr g)" and "all_in_memory g"
    and "lat \<le> from_secs (operation_timeout_seconds (cfg_resilience cfg))"
  shows "let S = open_stores oc lat net g in
    \<exists>out w. basic_usage S (fresh_world S t) = Some (Inr out, w)
      \<and> pr_status out = Some (bytes_of ''active'')
      \<and> pr_active_nodes out = [(''node-1'', score_1000), (''node-2'', score_1050)]
      \<and> pr_blob_url out = ''memory://configs/cluster.json''
      \<and> ch_state (pr_health out) = Healthy
      \<and> hm_get (ch_contracts (pr_health out)) =
          (\<lambda>c. if c \<in> {''kv'', ''relational'', ''sorted_set'', ''pubsub'', ''blob''}
               then Some (healthy c ''memory'' 0) else None)"
proof -
  let ?ok = "\<lambda>c. Inr (healthy c ''memory'' 0)"
  let ?report = "health_check (?ok ''kv'') (?ok ''relational'') (?ok ''sorted_set'') (?ok ''pubsub'') (?ok ''blob'')"
  have "ch_state ?report = Healthy"
    by (simp add: health_check_state reported_def healthy_def)
  moreover have "hm_get (ch_contracts ?report) =
      (\<lambda>c. if c \<in> {''kv'', ''relational'', ''sorted_set'', ''pubsub'', ''blob''}
        then Some (healthy c ''memory'' 0) else None)"
    by (subst health_check_contracts) (auto simp: reports_as_def healthy_def status_or_def fun_eq_iff)
  moreover obtain y where "yields (basic_usage (open_stores oc lat net g)) (\<lambda>_. None, \<lambda>_. [], \<lambda>_. None)
    \<lparr>pr_status = Some (bytes_of ''active''),
     pr_active_nodes = [(''node-1'', score_1000), (''node-2'', score_1050)],
     pr_blob_url = ''memory://configs/cluster.json'', pr_health = ?report\<rparr> y"
    using basic_usage_yields[OF assms, of oc net] by blast
  ultimately show ?thesis
    using fresh_world_stands[of oc lat net g t] unfolding yields_def Let_def by fastforce
qed

end
