(* ===== verification/Facade_Calls.thy ===== *)
theory Facade_Calls
  imports Facade_Run
begin

text \<open>
  Any program over the in-memory facade: calls of all five contracts and health checks in any
  order behave as on one abstract world, in which a call touches its own contract only.
\<close>

section \<open>Calls on the objects of the facade\<close>

fun kv_on :: "'s resilient_kv_store \<Rightarrow> kv_call \<Rightarrow> ('s, kv_reply) guarded_call" where
  "kv_on s (KvGet k) = map_call KvValue (rkv_get s k)"
| "kv_on s (KvSet k v) = map_call (\<lambda>_. KvDone) (rkv_set s k v None)"
| "kv_on s (KvDelete k) = map_call (\<lambda>_. KvDone) (rkv_delete s k)"
| "kv_on s (KvExists k) = map_call KvFlag (rkv_exists s k)"
| "kv_on s (KvSetIfNotExists k v) = map_call KvFlag (rkv_set_if_not_exists s k v None)"

fun sorted_set_on :: "'s resilient_sorted_set_store \<Rightarrow> ss_call \<Rightarrow> ('s, ss_reply) guarded_call" where
  "sorted_set_on s (SsAdd st m scr) = map_call (\<lambda>_. SsDone) (rss_add s st m scr)"
| "sorted_set_on s (SsRemove st m) = map_call (\<lambda>_. SsDone) (rss_remove s st m)"
| "sorted_set_on s (SsRange st lo hi limit) = map_call SsMembers (rss_range_by_score s st lo hi limit)"
| "sorted_set_on s (SsCount st) = map_call SsNumber (rss_count s st)"
| "sorted_set_on s (SsRemoveRange st lo hi) = map_call SsNumber (rss_remove_range s st lo hi)"
| "sorted_set_on s (SsScore st m) = map_call SsValue (rss_score s st m)"

fun blob_on :: "'s resilient_blob_store \<Rightarrow> blob_call \<Rightarrow> ('s, blob_reply) guarded_call" where
  "blob_on s (BlobPut k d meta) = map_call (\<lambda>_. BlobDone) (rbs_put s k d meta)"
| "blob_on s (BlobGet k) = map_call BlobValue (rbs_get s k)"
| "blob_on s (BlobDelete k) = map_call (\<lambda>_. BlobDone) (rbs_delete s k)"
| "blob_on s (BlobList pref) = map_call BlobKeys (rbs_list s pref)"

lemma new_stores_on:
  "kv_on (resilient_kv_new oc kv cfg b) c = kv_client oc cfg b kv c"
  "sorted_set_on (resilient_sorted_set_new oc ss cfg b) c' = ss_client oc cfg b ss c'"
  "blob_on (resilient_blob_new oc bs cfg b) c'' = blob_client oc cfg b bs c''"
proof -
  show "kv_on (resilient_kv_new oc kv cfg b) c = kv_client oc cfg b kv c"
    by (cases c) (simp_all add: resilient_kv_new_def)
  show "sorted_set_on (resilient_sorted_set_new oc ss cfg b) c' = ss_client oc cfg b ss c'"
    by (cases c') (simp_all add: resilient_sorted_set_new_def)
  show "blob_on (resilient_blob_new oc bs cfg b) c'' = blob_client oc cfg b bs c''"
    by (cases c'') (simp_all add: resilient_blob_new_def)
qed

datatype facade_call = OnKv kv_call | OnSortedSet ss_call | OnBlob blob_call
  | PresignBlob string duration | Query string "param list" | Statement string "param list"
  | Migrate "migration list" | PublishOn string bytes | CheckHealth

datatype facade_reply = KvReply kv_reply | SsReply ss_reply | BlobReply blob_reply | Url string
  | RowsReply rows | Affected nat | Finished_call | Report consolidated_health

definition map_step :: "('a \<Rightarrow> 'b) \<Rightarrow> ('c, 'a) step \<Rightarrow> ('c, 'b) step" where
  "map_step f m w = map_option (apfst (map_sum id f)) (m w)"

fun facade_client :: "('c, 'rx) stores \<Rightarrow> facade_call \<Rightarrow> ('c, facade_reply) step" where
  "facade_client S (OnKv c) = map_step KvReply (guarded_step w_kv put_kv (kv_on (st_kv S) c))"
| "facade_client S (OnSortedSet c) =
     map_step SsReply (guarded_step w_sorted_set put_sorted_set (sorted_set_on (st_sorted_set S) c))"
| "facade_client S (OnBlob c) = map_step BlobReply (guarded_step w_blob put_blob (blob_on (st_blob S) c))"
| "facade_client S (PresignBlob k expiry) =
     map_step Url (guarded_step w_blob put_blob (rbs_presign_url (st_blob S) k expiry))"
| "facade_client S (Query sql params) =
     map_step RowsReply (guarded_step w_relational put_relational (rrs_query (st_relational S) sql params))"
| "facade_client S (Statement sql params) =
     map_step Affected (guarded_step w_relational put_relational (rrs_execute (st_relational S) sql params))"
| "facade_client S (Migrate ms) =
     map_step (\<lambda>_. Finished_call) (guarded_step w_relational put_relational (rrs_migrate (st_relational S) ms))"
| "facade_client S (PublishOn chan payload) =
     map_step (\<lambda>_. Finished_call) (guarded_step w_pubsub put_pubsub (rps_publish (st_pubsub S) chan payload))"
| "facade_client S CheckHealth = map_step Report (check_health S)"

fun run_steps :: "('q \<Rightarrow> ('c, 'r) step) \<Rightarrow> 'q list \<Rightarrow> 'c world \<Rightarrow> ('r result list \<times> 'c world) option" where
  "run_steps call [] w = Some ([], w)"
| "run_steps call (c # cs) w =
     (case call c w of None \<Rightarrow> None | Some (r, w') \<Rightarrow> map_option (apfst (Cons r)) (run_steps call cs w'))"

section \<open>Their meaning\<close>

definition memory_report :: consolidated_health where
  "memory_report = health_check (Inr (healthy ''kv'' ''memory'' 0)) (Inr (healthy ''relational'' ''memory'' 0))
     (Inr (healthy ''sorted_set'' ''memory'' 0)) (Inr (healthy ''pubsub'' ''memory'' 0))
     (Inr (healthy ''blob'' ''memory'' 0))"

fun facade_meaning :: "facade_call \<Rightarrow> model \<Rightarrow> facade_reply \<times> model" where
  "facade_meaning (OnKv c) (m, r, b) = (KvReply (fst (kv_meaning c m)), (snd (kv_meaning c m), r, b))"
| "facade_meaning (OnSortedSet c) (m, r, b) = (SsReply (fst (ss_meaning c r)), (m, snd (ss_meaning c r), b))"
| "facade_meaning (OnBlob c) (m, r, b) = (BlobReply (fst (blob_meaning c b)), (m, r, snd (blob_meaning c b)))"
| "facade_meaning (PresignBlob k expiry) x = (Url (''memory://'' @ k), x)"
| "facade_meaning (Query sql params) x = (RowsReply \<lparr>rows_columns = [], rows_data = []\<rparr>, x)"
| "facade_meaning (Statement sql params) x = (Affected 0, x)"
| "facade_meaning (Migrate ms) x = (Finished_call, x)"
| "facade_meaning (PublishOn chan payload) x = (Finished_call, x)"
| "facade_meaning CheckHealth x = (Report memory_report, x)"

fun facade_call_ok :: "facade_call \<Rightarrow> bool" where
  "facade_call_ok (OnSortedSet c) = ss_call_ok c"
| "facade_call_ok _ = True"

lemma yields_map_step: "yields m x v y \<Longrightarrow> yields (map_step f m) x (f v) y"
  unfolding yields_def map_step_def by fastforce

lemma memory_relational_serves:
  "serves (\<lambda>_. True) (\<lambda>_. ()) lat (rs_query (memory_relational lat) sql params)
     (\<lambda>u. (\<lparr>rows_columns = [], rows_data = []\<rparr>, u))"
  "serves (\<lambda>_. True) (\<lambda>_. ()) lat (rs_execute (memory_relational lat) sql params) (\<lambda>u. (0, u))"
  "serves (\<lambda>_. True) (\<lambda>_. ()) lat (rs_migrate (memory_relational lat) ms) (\<lambda>u. ((), u))"
  by (simp add: memory_relational_def, rule serves_atomic, simp)+

lemma memory_publish_serves:
  "serves (\<lambda>_. True) (\<lambda>_. ()) lat (ps_publish (memory_pubsub bc utc lat) chan payload) (\<lambda>u. ((), u))"
proof -
  have "serves (\<lambda>_. True) (\<lambda>_. ()) lat (atomic lat (mem_publish bc utc chan payload t)) (\<lambda>u. ((), u))" for t
    by (rule serves_atomic) (simp add: mem_publish_def Let_def split: option.splits)
  then show ?thesis unfolding serves_def memory_pubsub_def atomic_at_def by simp
qed

section \<open>Programs\<close>

text \<open>The stores of an in-memory facade answer every call with its meaning.\<close>

lemma facade_call_yields:
  assumes "from_config fs d cfg = Some (Inr g)" and "all_in_memory g"
    and "lat \<le> from_secs (operation_timeout_seconds (cfg_resilience cfg))" and "facade_call_ok c"
  shows "yields (facade_client (open_stores oc lat net g) c) x (fst (facade_meaning c x)) (snd (facade_meaning c x))"
proof -
  obtain m r b where x: "x = (m, r, b)" by (cases x)
  note time = assms(3)[folded from_config_resilience(1)[OF assms(1)]]
    assms(3)[folded from_config_resilience(2)[OF assms(1)]]
    assms(3)[folded from_config_resilience(3)[OF assms(1)]]
    assms(3)[folded from_config_resilience(4)[OF assms(1)]]
    assms(3)[folded from_config_resilience(5)[OF assms(1)]]
  note mem = assms(2)[unfolded all_in_memory_def]
  note ex = serves_execute[OF serves_instrumented]
  show ?thesis
  proof (cases c)
    case (OnKv c')
    have "serves_call hm_ok hm_get (kv_on (st_kv (open_stores oc lat net g)) c') (kv_meaning c')"
      using kv_guarded.client_serves[OF kv_guarded.intro[OF instrumented_mem_kv.kv_contract_axioms
        kv_guarded_axioms.intro[OF time(1)]]] mem
      by (simp add: open_stores_def new_stores_on)
    from yields_map_step[OF kv_slot.yields_slot[OF this, where x = "(m, r, b)"]] show ?thesis by (simp add: OnKv x)
  next
    case (OnSortedSet c')
    with assms(4) have "serves_call ss_ok ss_rankings
        (sorted_set_on (st_sorted_set (open_stores oc lat net g)) c') (ss_meaning c')"
      using sorted_set_guarded.client_serves[OF sorted_set_guarded.intro[OF
        instrumented_mem_ss.sorted_set_contract_axioms sorted_set_guarded_axioms.intro[OF time(2)]]] mem
      by (simp add: open_stores_def new_stores_on)
    from yields_map_step[OF sorted_set_slot.yields_slot[OF this, where x = "(m, r, b)"]] show ?thesis by (simp add: OnSortedSet x)
  next
    case (OnBlob c')
    have "serves_call hm_ok blob_view (blob_on (st_blob (open_stores oc lat net g)) c') (blob_meaning c')"
      using blob_guarded.client_serves[OF blob_guarded.intro[OF instrumented_mem_blob.blob_contract_axioms
        blob_guarded_axioms.intro[OF time(3)]]] mem
      by (simp add: open_stores_def new_stores_on)
    from yields_map_step[OF blob_slot.yields_slot[OF this, where x = "(m, r, b)"]] show ?thesis by (simp add: OnBlob x)
  next
    case (PresignBlob k expiry)
    show ?thesis
      using yields_map_step[OF open_blob_yields(2)[OF assms(2) time(3)]] by (simp add: PresignBlob x)
  next
    case (Query sql params)
    from yields_map_step[OF relational_slot.yields_slot[OF ex[OF memory_relational_serves(1) time(4)], where x = x]]
    show ?thesis using mem
      by (simp add: Query x open_defs resilient_query_def instrumented_relational_def)
  next
    case (Statement sql params)
    from yields_map_step[OF relational_slot.yields_slot[OF ex[OF memory_relational_serves(2) time(4)], where x = x]]
    show ?thesis using mem
      by (simp add: Statement x open_defs resilient_execute_def instrumented_relational_def)
  next
    case (Migrate ms)
    from yields_map_step[OF relational_slot.yields_slot[OF ex[OF memory_relational_serves(3) time(4)], where x = x]]
    show ?thesis using mem
      by (simp add: Migrate x open_defs resilient_migrate_def instrumented_relational_def)
  next
    case (PublishOn chan payload)
    from yields_map_step[OF pubsub_slot.yields_slot[OF ex[OF memory_publish_serves time(5)], where x = x]]
    show ?thesis using mem
      by (simp add: PublishOn x open_defs resilient_publish_def instrumented_pubsub_def)
  next
    case CheckHealth
    show ?thesis
      using yields_map_step[OF open_health_yields[OF assms(2)]] by (simp add: CheckHealth memory_report_def)
  qed
qed

lemma run_steps_yield:
  assumes "\<forall>c \<in> set cs. \<forall>x. yields (call c) x (fst (spec c x)) (snd (spec c x))" and "stands_for w x"
  shows "\<exists>w'. run_steps call cs w = Some (map Inr (fst (run_spec spec cs x)), w')
    \<and> stands_for w' (snd (run_spec spec cs x))"
  using assms
proof (induction cs arbitrary: w x)
  case (Cons c cs)
  obtain w1 where "call c w = Some (Inr (fst (spec c x)), w1)" "stands_for w1 (snd (spec c x))"
    using Cons.prems unfolding yields_def by (meson list.set_intros(1))
  with Cons.IH[OF _ this(2)] Cons.prems(1) show ?case by (auto split: prod.splits)
qed simp

lemma facade_program_yields:
  assumes "from_config fs d cfg = Some (Inr g)" and "all_in_memory g"
    and "lat \<le> from_secs (operation_timeout_seconds (cfg_resilience cfg))"
    and "\<forall>c \<in> set calls. facade_call_ok c"
  shows "\<exists>w. run_steps (facade_client (open_stores oc lat net g)) calls (fresh_world (open_stores oc lat net g) t)
      = Some (map Inr (fst (run_spec facade_meaning calls (\<lambda>_. None, \<lambda>_. [], \<lambda>_. None))), w)
    \<and> stands_for w (snd (run_spec facade_meaning calls (\<lambda>_. None, \<lambda>_. [], \<lambda>_. None)))"
proof -
  have "\<forall>c \<in> set calls. \<forall>x. yields (facade_client (open_stores oc lat net g) c) x
      (fst (facade_meaning c x)) (snd (facade_meaning c x))"
    using facade_call_yields[OF assms(1-3)] assms(4) by blast
  from run_steps_yield[OF this fresh_world_stands] show ?thesis .
qed

end
