(* ===== verification/Blob_Path.thy ===== *)
theory Blob_Path
  imports Store_Prelude "HOL-Library.Sublist"
begin

text \<open>
  The path arithmetic of \<open>LocalBlobStore\<close> in \<^verbatim>\<open>rust/src/blob.rs\<close>. A path is its text;
  \<open>PathBuf::join\<close> is the one of a Unix system: an absolute argument replaces the path, any
  other is appended after a separator.
\<close>

definition path_join :: "string \<Rightarrow> string \<Rightarrow> string" where
  "path_join base p =
     (if p \<noteq> [] \<and> hd p = CHR ''/'' then p
      else if base = [] \<or> last base = CHR ''/'' then base @ p
      else base @ ''/'' @ p)"

text \<open>
  \<open>Path::components\<close>: the names between separators, without empty ones and without \<open>.\<close> except
  in front. \<open>parent\<close>, \<open>file_name\<close> and \<open>strip_prefix\<close> work on components.
\<close>

fun split_path :: "string \<Rightarrow> string list" where
  "split_path [] = [[]]"
| "split_path (c # cs) =
     (if c = CHR ''/'' then [] # split_path cs
      else (c # hd (split_path cs)) # tl (split_path cs))"

definition path_components :: "string \<Rightarrow> string list" where
  "path_components p =
     (let segments = split_path p;
          named = filter (\<lambda>s. s \<noteq> [] \<and> s \<noteq> ''.'') segments
      in if hd segments = ''.'' then ''.'' # named else named)"

definition is_absolute :: "string \<Rightarrow> bool" where
  "is_absolute p = (p \<noteq> [] \<and> hd p = CHR ''/'')"

fun join_names :: "string list \<Rightarrow> string" where
  "join_names [] = []"
| "join_names [n] = n"
| "join_names (n # ns) = n @ ''/'' @ join_names ns"

definition path_parent :: "string \<Rightarrow> string option" where
  "path_parent p =
     (case path_components p of
        [] \<Rightarrow> None
      | c # cs \<Rightarrow> Some ((if is_absolute p then ''/'' else []) @ join_names (butlast (c # cs))))"

definition path_file_name :: "string \<Rightarrow> string option" where
  "path_file_name p =
     (case rev (path_components p) of
        [] \<Rightarrow> None
      | c # _ \<Rightarrow> if c = ''.'' \<or> c = ''..'' then None else Some c)"

definition strip_base :: "string \<Rightarrow> string \<Rightarrow> string option" where
  "strip_base p base =
     (if is_absolute p = is_absolute base \<and> prefix (path_components base) (path_components p)
      then Some (join_names (drop (length (path_components base)) (path_components p)))
      else None)"

text \<open>\<open>replace('\', "/")\<close>.\<close>

definition unbackslash :: "string \<Rightarrow> string" where
  "unbackslash = map (\<lambda>c. if c = CHR 92 then CHR ''/'' else c)"

text \<open>\<open>contains("..")\<close>.\<close>

fun contains_dots :: "string \<Rightarrow> bool" where
  "contains_dots (a # b # cs) = (a = CHR ''.'' \<and> b = CHR ''.'' \<or> contains_dots (b # cs))"
| "contains_dots _ = False"

definition clean_key :: "string \<Rightarrow> string" where
  "clean_key key = unbackslash (dropWhile (\<lambda>c. c = CHR ''/'') key)"

definition resolve_path :: "string \<Rightarrow> string \<Rightarrow> string result" where
  "resolve_path base_path key =
     (let clean = clean_key key
      in if contains_dots clean then Inl DirectoryTraversal else Inr (path_join base_path clean))"

definition meta_path :: "string \<Rightarrow> string" where
  "meta_path blob_path = blob_path @ ''.meta.json''"

section \<open>What a resolved path looks like\<close>

lemma contains_dots_iff: "contains_dots cs \<longleftrightarrow> (\<exists>xs ys. cs = xs @ ''..'' @ ys)"
proof (induction cs rule: contains_dots.induct)
  case (1 a b cs)
  show ?case
  proof
    assume "contains_dots (a # b # cs)"
    then consider "a = CHR ''.'' \<and> b = CHR ''.''" | "contains_dots (b # cs)" by auto
    then show "\<exists>xs ys. a # b # cs = xs @ ''..'' @ ys"
    proof cases
      case 1
      then show ?thesis by (intro exI[of _ "[]"] exI[of _ cs]) simp
    next
      case 2
      with "1.IH" obtain xs ys where "b # cs = xs @ ''..'' @ ys" by auto
      then show ?thesis by (intro exI[of _ "a # xs"] exI[of _ ys]) simp
    qed
  next
    assume "\<exists>xs ys. a # b # cs = xs @ ''..'' @ ys"
    then obtain xs ys where eq: "a # b # cs = xs @ ''..'' @ ys" by blast
    show "contains_dots (a # b # cs)"
    proof (cases xs)
      case Nil
      with eq show ?thesis by simp
    next
      case (Cons x xs')
      with eq have "b # cs = xs' @ ''..'' @ ys" by simp
      with "1.IH" have "contains_dots (b # cs)" by blast
      then show ?thesis by simp
    qed
  qed
qed (auto simp: Cons_eq_append_conv)

definition leading_backslash :: "string \<Rightarrow> bool" where
  "leading_backslash key =
     (case dropWhile (\<lambda>c. c = CHR ''/'') key of [] \<Rightarrow> False | c # _ \<Rightarrow> c = CHR 92)"

lemma clean_key_head:
  "leading_backslash key \<longleftrightarrow> clean_key key \<noteq> [] \<and> hd (clean_key key) = CHR ''/''"
proof (cases "dropWhile (\<lambda>c. c = CHR ''/'') key")
  case Nil
  show ?thesis unfolding leading_backslash_def clean_key_def Nil by (simp add: unbackslash_def)
next
  case (Cons c cs)
  have "c \<noteq> CHR ''/''"
    using hd_dropWhile[of "\<lambda>c. c = CHR ''/''" key] unfolding Cons by (simp only: list.sel) blast
  then show ?thesis unfolding leading_backslash_def clean_key_def Cons by (simp add: unbackslash_def)
qed

lemma resolve_path_inside:
  assumes "resolve_path base key = Inr p" and "\<not> leading_backslash key"
  shows "prefix base p" and "\<exists>rel. p = base @ rel \<and> \<not> contains_dots (drop (length base) p)"
proof -
  have p: "p = (if base = [] \<or> last base = CHR ''/'' then base @ clean_key key
      else base @ ''/'' @ clean_key key)" and d: "\<not> contains_dots (clean_key key)"
    using assms clean_key_head[of key]
    by (auto simp: resolve_path_def path_join_def Let_def split: if_splits)
  have "\<not> contains_dots (''/'' @ clean_key key)"
    using d by (cases "clean_key key") auto
  with p d show "prefix base p" "\<exists>rel. p = base @ rel \<and> \<not> contains_dots (drop (length base) p)"
    by auto
qed

lemma resolve_path_outside:
  assumes "resolve_path base key = Inr p" and "leading_backslash key"
  shows "p = clean_key key" and "hd p = CHR ''/''"
  using assms clean_key_head[of key]
  by (auto simp: resolve_path_def path_join_def Let_def split: if_splits)

section \<open>Names below a directory\<close>

text \<open>A name of a directory entry.\<close>

definition plain_name :: "string \<Rightarrow> bool" where
  "plain_name n \<longleftrightarrow> n \<noteq> [] \<and> n \<noteq> ''.'' \<and> n \<noteq> ''..'' \<and> CHR ''/'' \<notin> set n"

lemma split_path_nonempty [simp]: "split_path p \<noteq> []"
  by (induction p) auto

lemma split_path_slash: "split_path (a @ CHR ''/'' # b) = split_path a @ split_path b"
  by (induction a) auto

lemma split_path_name: "CHR ''/'' \<notin> set n \<Longrightarrow> split_path n = [n]"
  by (induction n) auto

lemma path_components_join:
  assumes "plain_name n"
  shows "path_components (path_join p n) = path_components p @ [n]"
    and "is_absolute (path_join p n) = is_absolute p"
proof -
  have n: "n \<noteq> []" "n \<noteq> ''.''" "CHR ''/'' \<notin> set n" "hd n \<noteq> CHR ''/''"
    using assms by (auto simp: plain_name_def) (metis list.set_sel(1))
  consider (empty) "p = []" | (slash) q where "p = q @ ''/''" | (other) "p \<noteq> []" "last p \<noteq> CHR ''/''"
    by (metis append_butlast_last_id)
  then have "path_components (path_join p n) = path_components p @ [n]
      \<and> is_absolute (path_join p n) = is_absolute p"
  proof cases
    case empty
    with n show ?thesis
      by (simp add: path_join_def path_components_def split_path_name is_absolute_def)
  next
    case slash
    have "path_join p n = q @ CHR ''/'' # n" using n slash by (simp add: path_join_def)
    moreover have "split_path p = split_path q @ [[]]" using slash split_path_slash[of q "[]"] by simp
    ultimately show ?thesis
      using n slash by (simp add: path_components_def split_path_slash split_path_name is_absolute_def
          Let_def hd_append)
  next
    case other
    then have "path_join p n = p @ CHR ''/'' # n" using n by (simp add: path_join_def)
    with n other show ?thesis
      by (simp add: path_components_def split_path_slash split_path_name is_absolute_def Let_def)
  qed
  then show "path_components (path_join p n) = path_components p @ [n]"
    and "is_absolute (path_join p n) = is_absolute p" by simp_all
qed

text \<open>The path \<open>p\<close> is the one named \<open>rel\<close> below \<open>base\<close>.\<close>

definition lies_at :: "string \<Rightarrow> string \<Rightarrow> string list \<Rightarrow> bool" where
  "lies_at base p rel \<longleftrightarrow> is_absolute p = is_absolute base
     \<and> path_components p = path_components base @ rel"

lemma lies_at_base [simp]: "lies_at base base []"
  by (simp add: lies_at_def)

lemma lies_at_join: "lies_at base p rel \<Longrightarrow> plain_name n \<Longrightarrow> lies_at base (path_join p n) (rel @ [n])"
  by (simp add: lies_at_def path_components_join)

lemma strip_base_at: "lies_at base p rel \<Longrightarrow> strip_base p base = Some (join_names rel)"
  by (simp add: lies_at_def strip_base_def)

lemma file_name_at: "lies_at base p (rel @ [n]) \<Longrightarrow> plain_name n \<Longrightarrow> path_file_name p = Some n"
  by (simp add: lies_at_def path_file_name_def plain_name_def)

section \<open>Keys that name one file each\<close>

text \<open>
  A key with no leading separator, no backslash, no parent reference and no suffix of a metadata
  file. Such keys resolve to different files, none of them the metadata file of another.
\<close>

definition simple_key :: "string \<Rightarrow> bool" where
  "simple_key k \<longleftrightarrow> k \<noteq> [] \<and> hd k \<noteq> CHR ''/'' \<and> CHR 92 \<notin> set k \<and> \<not> contains_dots k
     \<and> \<not> suffix ''.meta.json'' k"

lemma resolve_simple_key: "simple_key k \<Longrightarrow> resolve_path base k = Inr (path_join base k)"
proof -
  assume k: "simple_key k"
  then have "clean_key k = k"
    by (cases k) (auto simp: simple_key_def clean_key_def unbackslash_def intro!: map_idI)
  with k show ?thesis by (simp add: resolve_path_def simple_key_def)
qed

lemma path_join_inject:
  "k \<noteq> [] \<Longrightarrow> k' \<noteq> [] \<Longrightarrow> hd k \<noteq> CHR ''/'' \<Longrightarrow> hd k' \<noteq> CHR ''/'' \<Longrightarrow>
   path_join base k = path_join base k' \<longleftrightarrow> k = k'"
  by (simp add: path_join_def)

lemma simple_paths:
  assumes "simple_key k" and "simple_key k'"
  shows "path_join base k = path_join base k' \<longleftrightarrow> k = k'"
    and "meta_path (path_join base k) = meta_path (path_join base k') \<longleftrightarrow> k = k'"
    and "path_join base k \<noteq> meta_path (path_join base k')"
    and "meta_path (path_join base k) \<noteq> path_join base k'"
proof -
  have eq: "meta_path (path_join base q) = path_join base (q @ ''.meta.json'')" if "simple_key q" for q
    using that by (simp add: meta_path_def path_join_def simple_key_def)
  show "path_join base k = path_join base k' \<longleftrightarrow> k = k'"
    using assms by (simp add: path_join_inject simple_key_def)
  then show "meta_path (path_join base k) = meta_path (path_join base k') \<longleftrightarrow> k = k'"
    by (simp add: meta_path_def)
  show "path_join base k \<noteq> meta_path (path_join base k')" and
    "meta_path (path_join base k) \<noteq> path_join base k'"
    using assms by (auto simp: eq path_join_inject simple_key_def suffix_def)
qed

end
