(* ===== verification/Blob_Local.thy ===== *)
theory Blob_Local
  imports Blob_Path Blob_Store "HOL-Library.Multiset"
begin

text \<open>
  \<open>LocalBlobStore\<close> (\<^verbatim>\<open>rust/src/blob.rs\<close>): a blob is a file below a base path, its metadata a
  second file beside it. The file system and the serializer of the metadata are parameters;
  \<open>keeps_files\<close> and \<open>shows_listing\<close> state what the lemmas rely on.
\<close>

section \<open>The store\<close>

text \<open>
  The calls on \<open>tokio::fs\<close>, \<open>std::path\<close> and \<open>serde_json\<close>. \<open>fs_exists\<close> and
  \<open>fs_canonicalize\<close> return no error: \<open>Path::exists\<close> is false on one, and the caller replaces
  a failed canonicalization by the path itself (\<open>None\<close> here). \<open>fs_read_dir\<close> stands for
  \<open>read_dir\<close> and the \<open>next_entry\<close> calls on it: the names of all entries, or the first error.
\<close>

record 's file_system =
  fs_create_dir_all :: "string \<Rightarrow> ('s, unit) future"
  fs_write :: "string \<Rightarrow> bytes \<Rightarrow> ('s, unit) future"
  fs_read :: "string \<Rightarrow> ('s, bytes) future"
  fs_exists :: "string \<Rightarrow> ('s, bool) future"
  fs_remove_file :: "string \<Rightarrow> ('s, unit) future"
  fs_canonicalize :: "string \<Rightarrow> ('s, string option) future"
  fs_read_dir :: "string \<Rightarrow> ('s, string list) future"
  fs_is_dir :: "string \<Rightarrow> ('s, bool) future"
  fs_to_json :: "metadata \<Rightarrow> bytes result"
  fs_from_json :: "bytes \<Rightarrow> metadata result"

definition local_put ::
  "'s file_system \<Rightarrow> string \<Rightarrow> string \<Rightarrow> bytes \<Rightarrow> metadata option \<Rightarrow> ('s, unit) future" where
  "local_put fs base key dat meta =
     (case resolve_path base key of
        Inl err \<Rightarrow> bail err
      | Inr bpath \<Rightarrow>
          and_then
            (case path_parent bpath of Some parent \<Rightarrow> fs_create_dir_all fs parent | None \<Rightarrow> ready ())
            (\<lambda>_. and_then (fs_write fs bpath dat) (\<lambda>_.
               case meta of
                 None \<Rightarrow> ready ()
               | Some m \<Rightarrow>
                   (case fs_to_json fs m of
                      Inl err \<Rightarrow> bail err
                    | Inr meta_json \<Rightarrow> fs_write fs (meta_path bpath) meta_json))))"

definition local_get ::
  "'s file_system \<Rightarrow> string \<Rightarrow> string \<Rightarrow> ('s, (bytes \<times> metadata) option) future" where
  "local_get fs base key =
     (case resolve_path base key of
        Inl err \<Rightarrow> bail err
      | Inr bpath \<Rightarrow>
          and_then (fs_exists fs bpath) (\<lambda>there.
            if \<not> there then ready None
            else and_then (fs_read fs bpath) (\<lambda>dat.
              and_then (fs_exists fs (meta_path bpath)) (\<lambda>has_meta.
                if has_meta then
                  and_then (fs_read fs (meta_path bpath)) (\<lambda>meta_bytes.
                    ready (Some (dat, case fs_from_json fs meta_bytes of
                      Inr m \<Rightarrow> m | Inl err \<Rightarrow> default_metadata)))
                else ready (Some (dat, default_metadata))))))"

definition local_delete :: "'s file_system \<Rightarrow> string \<Rightarrow> string \<Rightarrow> ('s, unit) future" where
  "local_delete fs base key =
     (case resolve_path base key of
        Inl err \<Rightarrow> bail err
      | Inr bpath \<Rightarrow>
          (let remove_meta = and_then (fs_exists fs (meta_path bpath)) (\<lambda>has_meta.
                 if has_meta then ignoring (fs_remove_file fs (meta_path bpath)) (ready ())
                 else ready ())
           in and_then (fs_exists fs bpath) (\<lambda>there.
                if there then ignoring (fs_remove_file fs bpath) remove_meta else remove_meta)))"

definition local_presign :: "'s file_system \<Rightarrow> string \<Rightarrow> string \<Rightarrow> duration \<Rightarrow> ('s, string) future" where
  "local_presign fs base key expiry =
     (case resolve_path base key of
        Inl err \<Rightarrow> bail err
      | Inr bpath \<Rightarrow>
          and_then (fs_canonicalize fs bpath) (\<lambda>canonical.
            ready (''file://'' @ (case canonical of Some p \<Rightarrow> p | None \<Rightarrow> bpath))))"

text \<open>
  The listing walks the directories with a stack; the head of \<open>dirs\<close> is the end of the vector
  \<open>dirs_to_visit\<close>. A file is listed by its path below the base, unless it holds metadata. The
  fuel is the number of directories visited at most; out of fuel, the walk is still going on.
\<close>

definition wanted :: "string option \<Rightarrow> string \<Rightarrow> bool" where
  "wanted pref k = (case pref of Some p \<Rightarrow> prefix p k | None \<Rightarrow> True)"

definition listed :: "string \<Rightarrow> string option \<Rightarrow> string \<Rightarrow> string list" where
  "listed base pref path =
     (let file_name = (case path_file_name path of Some n \<Rightarrow> n | None \<Rightarrow> [])
      in if suffix ''.meta.json'' file_name then []
         else case strip_base path base of
                None \<Rightarrow> []
              | Some rel_path \<Rightarrow>
                  let rel_str = unbackslash rel_path
                  in if wanted pref rel_str then [rel_str] else [])"

fun visit_entries ::
  "'s file_system \<Rightarrow> string \<Rightarrow> string option \<Rightarrow> string \<Rightarrow> string list
     \<Rightarrow> string list \<times> string list \<Rightarrow> ('s, string list \<times> string list) future" where
  "visit_entries fs base pref dir [] acc = ready acc"
| "visit_entries fs base pref dir (name # names) (dirs, results) =
     (let path = path_join dir name
      in and_then (fs_is_dir fs path) (\<lambda>is_dir.
           visit_entries fs base pref dir names
             (if is_dir then (path # dirs, results) else (dirs, results @ listed base pref path))))"

primrec list_dirs ::
  "'s file_system \<Rightarrow> string \<Rightarrow> string option \<Rightarrow> nat \<Rightarrow> string list \<Rightarrow> string list
     \<Rightarrow> ('s, string list) future" where
  "list_dirs fs base pref 0 dirs results = (if dirs = [] then ready (sort results) else pending)"
| "list_dirs fs base pref (Suc fuel) dirs results =
     (case dirs of
        [] \<Rightarrow> ready (sort results)
      | dir # rest \<Rightarrow>
          and_then (fs_read_dir fs dir) (\<lambda>names.
            and_then (visit_entries fs base pref dir names (rest, results)) (\<lambda>acc.
              list_dirs fs base pref fuel (fst acc) (snd acc))))"

definition local_list ::
  "nat \<Rightarrow> 's file_system \<Rightarrow> string \<Rightarrow> string option \<Rightarrow> ('s, string list) future" where
  "local_list fuel fs base pref =
     and_then (fs_exists fs base) (\<lambda>there.
       if there then list_dirs fs base pref fuel [base] [] else ready [])"

text \<open>\<open>is_healthy\<close> reports every failure as a status.\<close>

definition now_status :: "(nat \<Rightarrow> health_status) \<Rightarrow> duration \<Rightarrow> ('s, health_status) future" where
  "now_status status start dl e = Finished (Inr (status (latency_ms start (clock e)))) e"

definition local_is_healthy :: "'s file_system \<Rightarrow> string \<Rightarrow> ('s, health_status) future" where
  "local_is_healthy fs base dl e =
     (let start = clock e;
          health_file = path_join base ''.health_check_probe''
      in match_then (fs_create_dir_all fs base) (\<lambda>made.
           case made of
             Inr _ \<Rightarrow> match_then (fs_write fs health_file (map (of_char :: char \<Rightarrow> 8 word) ''ok'')) (\<lambda>written.
               (case written of
                  Inr _ \<Rightarrow> ignoring (fs_remove_file fs health_file)
                    (now_status (healthy ''blob'' ''local'') start)
                | Inl err \<Rightarrow> now_status (unhealthy ''blob'' ''local''
                    (''cannot write to blob dir: '' @ error_message err)) start))
           | Inl err \<Rightarrow> now_status (unhealthy ''blob'' ''local''
               (''cannot create blob dir: '' @ error_message err)) start) dl e)"

definition local_blob :: "nat \<Rightarrow> 's file_system \<Rightarrow> string \<Rightarrow> 's blob_store" where
  "local_blob fuel fs base =
     \<lparr>bs_put = local_put fs base, bs_get = local_get fs base, bs_delete = local_delete fs base,
      bs_list = local_list fuel fs base, bs_presign_url = local_presign fs base,
      bs_is_healthy = local_is_healthy fs base\<rparr>"

section \<open>Listing a directory tree\<close>

text \<open>
  What a directory holds: its entries, each a file or a directory with entries of its own.
\<close>

datatype listing = NoEntry | FileEntry string listing | DirEntry string listing listing

primrec entry_names :: "listing \<Rightarrow> string list" where
  "entry_names NoEntry = []"
| "entry_names (FileEntry n l) = n # entry_names l"
| "entry_names (DirEntry n sub l) = n # entry_names l"

primrec dir_count :: "listing \<Rightarrow> nat" where
  "dir_count NoEntry = 0"
| "dir_count (FileEntry n l) = dir_count l"
| "dir_count (DirEntry n sub l) = Suc (dir_count sub) + dir_count l"

primrec listing_size :: "listing \<Rightarrow> nat" where
  "listing_size NoEntry = 0"
| "listing_size (FileEntry n l) = Suc (listing_size l)"
| "listing_size (DirEntry n sub l) = Suc (Suc (listing_size sub)) + listing_size l"

text \<open>The keys of the files below a directory named \<open>rel\<close>: their paths, without metadata files.\<close>

definition file_key :: "string list \<Rightarrow> string \<Rightarrow> string list" where
  "file_key rel n = (if suffix ''.meta.json'' n then [] else [unbackslash (join_names (rel @ [n]))])"

primrec listing_keys :: "string list \<Rightarrow> listing \<Rightarrow> string list" where
  "listing_keys rel NoEntry = []"
| "listing_keys rel (FileEntry n l) = file_key rel n @ listing_keys rel l"
| "listing_keys rel (DirEntry n sub l) = listing_keys (rel @ [n]) sub @ listing_keys rel l"

text \<open>The file system shows this listing at the path \<open>p\<close>, each call within \<open>L\<close>.\<close>

primrec shows_entries ::
  "'s file_system \<Rightarrow> ('s \<Rightarrow> bool) \<Rightarrow> ('s \<Rightarrow> 'x) \<Rightarrow> duration \<Rightarrow> 'x \<Rightarrow> string \<Rightarrow> listing \<Rightarrow> bool" where
  "shows_entries fs ok \<alpha> L x p NoEntry = True"
| "shows_entries fs ok \<alpha> L x p (FileEntry n l) =
     (plain_name n \<and> delivers ok \<alpha> L x (fs_is_dir fs (path_join p n)) False x
      \<and> shows_entries fs ok \<alpha> L x p l)"
| "shows_entries fs ok \<alpha> L x p (DirEntry n sub l) =
     (plain_name n \<and> delivers ok \<alpha> L x (fs_is_dir fs (path_join p n)) True x
      \<and> delivers ok \<alpha> L x (fs_read_dir fs (path_join p n)) (entry_names sub) x
      \<and> shows_entries fs ok \<alpha> L x (path_join p n) sub \<and> shows_entries fs ok \<alpha> L x p l)"

definition shows_listing ::
  "'s file_system \<Rightarrow> ('s \<Rightarrow> bool) \<Rightarrow> ('s \<Rightarrow> 'x) \<Rightarrow> duration \<Rightarrow> 'x \<Rightarrow> string \<Rightarrow> listing \<Rightarrow> bool" where
  "shows_listing fs ok \<alpha> L x p l \<longleftrightarrow>
     delivers ok \<alpha> L x (fs_read_dir fs p) (entry_names l) x \<and> shows_entries fs ok \<alpha> L x p l"

text \<open>One directory: its own files are listed, its subdirectories are put on the stack.\<close>

primrec own_keys :: "string list \<Rightarrow> listing \<Rightarrow> string list" where
  "own_keys rel NoEntry = []"
| "own_keys rel (FileEntry n l) = file_key rel n @ own_keys rel l"
| "own_keys rel (DirEntry n sub l) = own_keys rel l"

primrec own_dirs :: "string \<Rightarrow> string list \<Rightarrow> listing \<Rightarrow> (string \<times> string list \<times> listing) list" where
  "own_dirs p rel NoEntry = []"
| "own_dirs p rel (FileEntry n l) = own_dirs p rel l"
| "own_dirs p rel (DirEntry n sub l) = own_dirs p rel l @ [(path_join p n, rel @ [n], sub)]"

primrec own_size :: "listing \<Rightarrow> nat" where
  "own_size NoEntry = 0"
| "own_size (FileEntry n l) = Suc (own_size l)"
| "own_size (DirEntry n sub l) = Suc (own_size l)"

lemma listed_file_key:
  assumes "lies_at base p rel" and "plain_name n"
  shows "listed base pref (path_join p n) = filter (wanted pref) (file_key rel n)"
  using lies_at_join[OF assms] assms(2)
  by (simp add: listed_def file_key_def file_name_at strip_base_at Let_def)

lemma visit_entries_delivers:
  assumes "lies_at base p rel" and "shows_entries fs ok \<alpha> L x p l"
  shows "delivers ok \<alpha> (own_size l * L) x (visit_entries fs base pref p (entry_names l) (ds, res))
    (map fst (own_dirs p rel l) @ ds, res @ filter (wanted pref) (own_keys rel l)) x"
  using assms
proof (induction l arbitrary: ds res)
  case NoEntry
  then show ?case by (simp add: delivers_ready)
next
  case (FileEntry n l)
  then show ?case
    by (auto simp: Let_def listed_file_key intro!: settles_and_then
        FileEntry.IH[of ds "res @ filter (wanted pref) (file_key rel n)", simplified])
next
  case (DirEntry n sub l)
  then show ?case
    by (auto simp: Let_def intro!: settles_and_then DirEntry.IH(2)[of "path_join p n # ds", simplified])
qed

lemma own_dirs_shown:
  assumes "lies_at base p rel" and "shows_entries fs ok \<alpha> L x p l"
  shows "\<forall>(q, rel', sub) \<in> set (own_dirs p rel l). lies_at base q rel' \<and> shows_listing fs ok \<alpha> L x q sub"
  using assms by (induction l) (auto simp: lies_at_join shows_listing_def)

lemma own_dirs_count:
  "sum_list (map (\<lambda>(q, rel', sub). Suc (dir_count sub)) (own_dirs p rel l)) = dir_count l"
  by (induction l) auto

lemma own_dirs_size:
  "own_size l + sum_list (map (\<lambda>(q, rel', sub). Suc (listing_size sub)) (own_dirs p rel l)) = listing_size l"
  by (induction l) auto

lemma own_keys_mset:
  "mset (own_keys rel l) + mset (concat (map (\<lambda>(q, rel', sub). listing_keys rel' sub) (own_dirs p rel l)))
    = mset (listing_keys rel l)"
  by (induction l) auto

lemma sort_mset_cong: "mset xs = mset ys \<Longrightarrow> sort xs = sort ys" for xs :: "'a::linorder list"
  by (intro properties_for_sort) simp_all

lemma mset_filter_concat:
  "mset (concat (map (\<lambda>i. filter P (f i)) is)) = filter_mset P (mset (concat (map f is)))"
  by (induction "is") auto

text \<open>
  The walk: with a directory tree on the stack and fuel for its directories, it ends within the
  time of its calls, and returns what it had with all keys of the tree, in order.
\<close>

lemma list_dirs_delivers:
  assumes "\<forall>(p, rel, l) \<in> set st. lies_at base p rel \<and> shows_listing fs ok \<alpha> L x p l"
    and "sum_list (map (\<lambda>(p, rel, l). Suc (dir_count l)) st) \<le> fuel"
  shows "delivers ok \<alpha> (sum_list (map (\<lambda>(p, rel, l). Suc (listing_size l)) st) * L) x
    (list_dirs fs base pref fuel (map fst st) res)
    (sort (res @ filter (wanted pref) (concat (map (\<lambda>(p, rel, l). listing_keys rel l) st)))) x"
  using assms
proof (induction fuel arbitrary: st res)
  case 0
  then have "st = []" by (cases st) auto
  then show ?case by (simp add: delivers_ready)
next
  case (Suc fuel)
  show ?case
  proof (cases st)
    case Nil
    then show ?thesis by (simp add: delivers_ready)
  next
    case (Cons top st')
    obtain p rel l where top: "top = (p, rel, l)" by (cases top)
    let ?st = "own_dirs p rel l @ st'" and ?res = "res @ filter (wanted pref) (own_keys rel l)"
    have at: "lies_at base p rel" and read: "delivers ok \<alpha> L x (fs_read_dir fs p) (entry_names l) x"
      and shown: "shows_entries fs ok \<alpha> L x p l"
      using Suc.prems(1) by (simp_all add: Cons top shows_listing_def)
    have "delivers ok \<alpha> (sum_list (map (\<lambda>(p, rel, l). Suc (listing_size l)) ?st) * L) x
      (list_dirs fs base pref fuel (map fst ?st) ?res)
      (sort (?res @ filter (wanted pref) (concat (map (\<lambda>(p, rel, l). listing_keys rel l) ?st)))) x"
      using own_dirs_shown[OF at shown] Suc.prems own_dirs_count[of p rel l]
      by (intro Suc.IH) (auto simp: Cons top)
    moreover have "sort (?res @ filter (wanted pref) (concat (map (\<lambda>(p, rel, l). listing_keys rel l) ?st)))
      = sort (res @ filter (wanted pref) (concat (map (\<lambda>(p, rel, l). listing_keys rel l) st)))"
      by (rule sort_mset_cong) (simp add: Cons top flip: own_keys_mset[of rel l p])
    ultimately have rest: "delivers ok \<alpha> (sum_list (map (\<lambda>(p, rel, l). Suc (listing_size l)) ?st) * L) x
      (list_dirs fs base pref fuel (map fst ?st) ?res)
      (sort (res @ filter (wanted pref) (concat (map (\<lambda>(p, rel, l). listing_keys rel l) st)))) x"
      by simp
    have visit: "delivers ok \<alpha> (own_size l * L) x
      (visit_entries fs base pref p (entry_names l) (map fst st', res)) (map fst ?st, ?res) x"
      using visit_entries_delivers[OF at shown, of pref "map fst st'" res] by simp
    have time: "L + (own_size l * L + sum_list (map (\<lambda>(p, rel, l). Suc (listing_size l)) ?st) * L)
      = sum_list (map (\<lambda>(p, rel, l). Suc (listing_size l)) st) * L"
      by (simp add: Cons top algebra_simps flip: own_dirs_size[of l p rel])
    have step: "list_dirs fs base pref (Suc fuel) (map fst st) res =
      and_then (fs_read_dir fs p) (\<lambda>names.
        and_then (visit_entries fs base pref p names (map fst st', res)) (\<lambda>acc.
          list_dirs fs base pref fuel (fst acc) (snd acc)))"
      by (simp add: Cons top)
    show ?thesis
      unfolding step time[symmetric]
      by (intro settles_and_then[OF read] settles_and_then[OF visit]) (use rest in simp)
  qed
qed

lemma local_list_delivers:
  assumes "delivers ok \<alpha> L x (fs_exists fs base) True x" and "shows_listing fs ok \<alpha> L x base l"
    and "dir_count l < fuel"
  shows "delivers ok \<alpha> ((2 + listing_size l) * L) x (local_list fuel fs base pref)
    (sort (filter (wanted pref) (listing_keys [] l))) x"
proof -
  have "delivers ok \<alpha> (Suc (listing_size l) * L) x (list_dirs fs base pref fuel [base] [])
    (sort (filter (wanted pref) (listing_keys [] l))) x"
    using list_dirs_delivers[of "[(base, [], l)]" base fs ok \<alpha> L x fuel pref "[]"] assms by simp
  then have "delivers ok \<alpha> (L + Suc (listing_size l) * L) x (local_list fuel fs base pref)
    (sort (filter (wanted pref) (listing_keys [] l))) x"
    unfolding local_list_def by (intro settles_and_then[OF assms(1)]) simp
  then show ?thesis by (simp add: algebra_simps)
qed

section \<open>Files as a map\<close>

text \<open>
  What a file system promises for paths that are files or may become files, where the path is
  no directory and no two of the paths name one file: with \<open>files\<close> the contents by path, every
  call does what its name says, within \<open>L\<close>.
\<close>

definition keeps_files ::
  "'s file_system \<Rightarrow> ('s \<Rightarrow> bool) \<Rightarrow> ('s \<Rightarrow> string \<Rightarrow> bytes option) \<Rightarrow> duration \<Rightarrow> string set \<Rightarrow> bool" where
  "keeps_files fs ok files L paths \<longleftrightarrow>
     (\<forall>p\<in>paths. \<forall>m.
        (\<forall>dir. path_parent p = Some dir \<longrightarrow> delivers ok files L m (fs_create_dir_all fs dir) () m)
      \<and> (\<forall>bs. delivers ok files L m (fs_write fs p bs) () (m(p \<mapsto> bs)))
      \<and> delivers ok files L m (fs_exists fs p) (m p \<noteq> None) m
      \<and> (\<forall>bs. m p = Some bs \<longrightarrow> delivers ok files L m (fs_read fs p) bs m)
      \<and> (m p \<noteq> None \<longrightarrow> delivers ok files L m (fs_remove_file fs p) () (m(p := None))))"

lemma keeps_filesD:
  assumes "keeps_files fs ok files L paths" and "p \<in> paths"
  shows "path_parent p = Some dir \<Longrightarrow> delivers ok files L m (fs_create_dir_all fs dir) () m"
    and "delivers ok files L m (fs_write fs p bs) () (m(p \<mapsto> bs))"
    and "delivers ok files L m (fs_exists fs p) (m p \<noteq> None) m"
    and "m p = Some bs \<Longrightarrow> delivers ok files L m (fs_read fs p) bs m"
    and "m p \<noteq> None \<Longrightarrow> delivers ok files L m (fs_remove_file fs p) () (m(p := None))"
  using assms unfolding keeps_files_def by blast+

definition blob_files :: "string \<Rightarrow> string set \<Rightarrow> string set" where
  "blob_files base keys = path_join base ` keys \<union> meta_path ` path_join base ` keys"

text \<open>What \<open>serde_json\<close> makes of the bytes of a metadata file.\<close>

definition read_metadata :: "'s file_system \<Rightarrow> bytes \<Rightarrow> metadata" where
  "read_metadata fs js = (case fs_from_json fs js of Inr m \<Rightarrow> m | Inl err \<Rightarrow> default_metadata)"

lemma local_get_delivers:
  assumes "keeps_files fs ok files L (blob_files base keys)" and "k \<in> keys" and "simple_key k"
  shows "delivers ok files (5 * L) m (local_get fs base k)
    (map_option (\<lambda>d. (d, case m (meta_path (path_join base k)) of
       Some js \<Rightarrow> read_metadata fs js | None \<Rightarrow> default_metadata)) (m (path_join base k))) m"
proof -
  let ?p = "path_join base k" and ?q = "meta_path (path_join base k)"
  note p = keeps_filesD[OF assms(1), of ?p] and q = keeps_filesD[OF assms(1), of ?q]
  have in_p: "?p \<in> blob_files base keys" and in_q: "?q \<in> blob_files base keys"
    using assms(2) by (auto simp: blob_files_def)
  note there = settles_and_then[OF p(3)[OF in_p]] and meta = settles_and_then[OF q(3)[OF in_q]]
  show ?thesis
  proof (cases "m ?p")
    case None
    show ?thesis
      by (rule settles_weaken[of _ _ "L + L"])
        (auto simp: local_get_def resolve_simple_key[OF assms(3)] None delivers_ready intro!: there)
  next
    case (Some d)
    note data = settles_and_then[OF p(4)[where m = m and bs = d, OF in_p Some]]
    show ?thesis
    proof (cases "m ?q")
      case None
      show ?thesis
        by (rule settles_weaken[of _ _ "L + (L + (L + (L + L)))"])
          (auto simp: local_get_def resolve_simple_key[OF assms(3)] None Some delivers_ready
            intro!: there data meta)
    next
      case (Some js)
      note bytes = settles_and_then[OF q(4)[where m = m and bs = js, OF in_q Some]]
      show ?thesis
        by (rule settles_weaken[of _ _ "L + (L + (L + (L + L)))"])
          (auto simp: local_get_def resolve_simple_key[OF assms(3)] Some \<open>m ?p = Some d\<close> delivers_ready
            read_metadata_def intro!: there data meta bytes)
    qed
  qed
qed

lemma local_put_delivers:
  assumes "keeps_files fs ok files L (blob_files base keys)" and "k \<in> keys" and "simple_key k"
    and "\<And>md. meta = Some md \<Longrightarrow> fs_to_json fs md = Inr (js md)"
  shows "delivers ok files (5 * L) m (local_put fs base k d meta) ()
    (case meta of
       None \<Rightarrow> m(path_join base k \<mapsto> d)
     | Some md \<Rightarrow> m(path_join base k \<mapsto> d, meta_path (path_join base k) \<mapsto> js md))"
proof -
  let ?p = "path_join base k" and ?q = "meta_path (path_join base k)"
  note p = keeps_filesD[OF assms(1), of ?p] and q = keeps_filesD[OF assms(1), of ?q]
  have in_p: "?p \<in> blob_files base keys" and in_q: "?q \<in> blob_files base keys"
    using assms(2) by (auto simp: blob_files_def)
  have mkdir: "delivers ok files L m
      (case path_parent ?p of Some parent \<Rightarrow> fs_create_dir_all fs parent | None \<Rightarrow> ready ()) () m"
    using p(1)[OF in_p] by (auto split: option.splits intro: settles_weaken delivers_ready)
  note steps = settles_and_then[OF mkdir] settles_and_then[OF p(2)[OF in_p]]
  show ?thesis
  proof (cases meta)
    case None
    show ?thesis
      by (rule settles_weaken[of _ _ "L + (L + L)"])
        (auto simp: local_put_def resolve_simple_key[OF assms(3)] None delivers_ready intro!: steps)
  next
    case (Some md)
    show ?thesis
      by (rule settles_weaken[of _ _ "L + (L + L)"])
        (auto simp: local_put_def resolve_simple_key[OF assms(3)] Some assms(4) q(2)[OF in_q]
          intro!: steps)
  qed
qed

lemma local_delete_delivers:
  assumes "keeps_files fs ok files L (blob_files base keys)" and "k \<in> keys" and "simple_key k"
  shows "delivers ok files (5 * L) m (local_delete fs base k) ()
    (m(path_join base k := None, meta_path (path_join base k) := None))"
proof -
  let ?p = "path_join base k" and ?q = "meta_path (path_join base k)"
  note p = keeps_filesD[OF assms(1), of ?p] and q = keeps_filesD[OF assms(1), of ?q]
  have in_p: "?p \<in> blob_files base keys" and in_q: "?q \<in> blob_files base keys"
    using assms(2) by (auto simp: blob_files_def)
  let ?remove_meta = "and_then (fs_exists fs ?q) (\<lambda>has_meta.
     if has_meta then ignoring (fs_remove_file fs ?q) (ready ()) else ready ())"
  have meta: "delivers ok files (L + (L + L)) m' ?remove_meta () (m'(?q := None))" for m'
  proof (cases "m' ?q")
    case None
    then have "m'(?q := None) = m'" by auto
    then show ?thesis
      by (intro settles_and_then[OF q(3)[OF in_q]]) (simp add: None delivers_ready)
  next
    case (Some js)
    show ?thesis
      by (rule settles_and_then[OF q(3)[OF in_q]])
        (simp add: Some settles_ignoring[OF q(5)[OF in_q] delivers_ready])
  qed
  show ?thesis
  proof (cases "m ?p")
    case None
    then have "m(?p := None) = m" by auto
    with meta[of m] show ?thesis
      by (intro settles_weaken[of _ _ "L + (L + (L + L))" _ _ _ _ "5 * L"])
        (auto simp: local_delete_def resolve_simple_key[OF assms(3)] Let_def None
          intro!: settles_and_then[OF p(3)[OF in_p]])
  next
    case (Some d)
    show ?thesis
      by (rule settles_weaken[of _ _ "L + (L + (L + (L + L)))"])
        (auto simp: local_delete_def resolve_simple_key[OF assms(3)] Let_def Some
          intro!: settles_and_then[OF p(3)[OF in_p]] settles_ignoring[OF p(5)[OF in_p]] meta)
  qed
qed

section \<open>Blobs and their metadata, apart\<close>

text \<open>
  What the files of a set of keys mean: contents and metadata are separate maps, because a \<open>put\<close>
  without metadata writes only the first.
\<close>

type_synonym local_state = "(string \<Rightarrow> bytes option) \<times> (string \<Rightarrow> metadata option)"

definition local_view ::
  "'s file_system \<Rightarrow> string \<Rightarrow> string set \<Rightarrow> (string \<Rightarrow> bytes option) \<Rightarrow> local_state" where
  "local_view fs base keys m =
     ((\<lambda>k. m (path_join base k)) |` keys,
      (\<lambda>k. map_option (read_metadata fs) (m (meta_path (path_join base k)))) |` keys)"

fun local_meaning :: "blob_call \<Rightarrow> local_state \<Rightarrow> blob_reply \<times> local_state" where
  "local_meaning (BlobPut k d meta) (contents, metas) =
     (BlobDone, contents(k \<mapsto> d), (case meta of None \<Rightarrow> metas | Some md \<Rightarrow> metas(k \<mapsto> md)))"
| "local_meaning (BlobGet k) (contents, metas) =
     (BlobValue (map_option (\<lambda>d. (d, unwrap_or_default (metas k))) (contents k)), contents, metas)"
| "local_meaning (BlobDelete k) (contents, metas) =
     (BlobDone, contents(k := None), metas(k := None))"

lemma local_meaning_funs:
  "local_meaning (BlobPut k d meta) = (\<lambda>x.
     (BlobDone, (fst x)(k \<mapsto> d), (case meta of None \<Rightarrow> snd x | Some md \<Rightarrow> (snd x)(k \<mapsto> md))))"
  "local_meaning (BlobGet k) = (\<lambda>x.
     (BlobValue (map_option (\<lambda>d. (d, unwrap_or_default (snd x k))) (fst x k)), x))"
  "local_meaning (BlobDelete k) = (\<lambda>x. (BlobDone, (fst x)(k := None), (snd x)(k := None)))"
  by (auto simp: fun_eq_iff split: option.splits)

text \<open>Calls on the keys, with metadata that the serializer reads back.\<close>

fun storable :: "'s file_system \<Rightarrow> string set \<Rightarrow> blob_call \<Rightarrow> bool" where
  "storable fs keys (BlobPut k d meta) =
     (k \<in> keys \<and> (case meta of
        None \<Rightarrow> True
      | Some md \<Rightarrow> (case fs_to_json fs md of Inl err \<Rightarrow> False | Inr js \<Rightarrow> fs_from_json fs js = Inr md)))"
| "storable fs keys (BlobGet k) = (k \<in> keys)"
| "storable fs keys (BlobDelete k) = (k \<in> keys)"
| "storable fs keys (BlobList pref) = False"

lemma local_view_put:
  assumes "\<forall>k\<in>keys. simple_key k" and "k \<in> keys"
  shows "local_view fs base keys (m(path_join base k \<mapsto> d)) =
      ((fst (local_view fs base keys m))(k \<mapsto> d), snd (local_view fs base keys m))"
    and "local_view fs base keys (m(meta_path (path_join base k) \<mapsto> js)) =
      (fst (local_view fs base keys m), (snd (local_view fs base keys m))(k \<mapsto> read_metadata fs js))"
    and "local_view fs base keys (m(path_join base k := None)) =
      ((fst (local_view fs base keys m))(k := None), snd (local_view fs base keys m))"
    and "local_view fs base keys (m(meta_path (path_join base k) := None)) =
      (fst (local_view fs base keys m), (snd (local_view fs base keys m))(k := None))"
  using assms by (auto simp: local_view_def restrict_map_def fun_eq_iff simple_paths)

lemma local_stack_serves:
  assumes files: "keeps_files fs ok files L (blob_files base keys)" and keys: "\<forall>k\<in>keys. simple_key k"
    and time: "5 * L \<le> from_secs (operation_timeout_seconds cfg)" and c: "storable fs keys c"
  shows "serves_call ok (\<lambda>s. local_view fs base keys (files s))
    (blob_client oc cfg backend (instrumented_blob (local_blob fuel fs base) backend) c) (local_meaning c)"
proof -
  let ?view = "local_view fs base keys"
  have k: "k \<in> keys \<Longrightarrow> simple_key k" for k using keys by blast
  note run = serves_map_call[OF serves_execute[OF serves_instrumented time]]
  show ?thesis
  proof (cases c)
    case (BlobPut k d meta)
    define js where "js md = (case fs_to_json fs md of Inr js \<Rightarrow> js)" for md
    have "k \<in> keys" and js: "fs_to_json fs md = Inr (js md) \<and> read_metadata fs (js md) = md"
      if "meta = Some md" for md
      using c that by (auto simp: BlobPut js_def read_metadata_def split: sum.splits)
    moreover have in_keys: "k \<in> keys" using c by (simp add: BlobPut)
    ultimately have "serves ok (\<lambda>s. ?view (files s)) (5 * L) (local_put fs base k d meta)
      (\<lambda>x. ((), (fst x)(k \<mapsto> d), (case meta of None \<Rightarrow> snd x | Some md \<Rightarrow> (snd x)(k \<mapsto> md))))"
      using local_put_delivers[OF files in_keys k[OF in_keys], of meta js]
      by (intro serves_coarser[where h = ?view and \<alpha> = files and y = "\<lambda>m. case meta of None \<Rightarrow> m(path_join base k \<mapsto> d)
          | Some md \<Rightarrow> m(path_join base k \<mapsto> d, meta_path (path_join base k) \<mapsto> js md)"])
        (auto simp: local_view_put[OF keys in_keys] split: option.splits)
    from run[OF this] show ?thesis
      by (simp add: BlobPut instrumented_blob_def local_blob_def resilient_blob_defs local_meaning_funs)
  next
    case (BlobGet k)
    then have in_keys: "k \<in> keys" using c by simp
    have reply: "map_option (\<lambda>d. (d, case m (meta_path (path_join base k)) of
          Some js \<Rightarrow> read_metadata fs js | None \<Rightarrow> default_metadata)) (m (path_join base k))
      = map_option (\<lambda>d. (d, unwrap_or_default (snd (?view m) k))) (fst (?view m) k)" for m
      by (auto simp: local_view_def in_keys unwrap_or_default_def split: option.split)
    have "serves ok (\<lambda>s. ?view (files s)) (5 * L) (local_get fs base k)
      (\<lambda>x. (map_option (\<lambda>d. (d, unwrap_or_default (snd x k))) (fst x k), x))"
      using local_get_delivers[OF files in_keys k[OF in_keys], unfolded reply]
      by (intro serves_coarser[where h = ?view and \<alpha> = files and y = "\<lambda>m. m"]) simp_all
    from run[OF this] show ?thesis
      by (simp add: BlobGet instrumented_blob_def local_blob_def resilient_blob_defs local_meaning_funs)
  next
    case (BlobDelete k)
    then have in_keys: "k \<in> keys" using c by simp
    have "serves ok (\<lambda>s. ?view (files s)) (5 * L) (local_delete fs base k)
      (\<lambda>x. ((), (fst x)(k := None), (snd x)(k := None)))"
      using local_delete_delivers[OF files in_keys k[OF in_keys]]
      by (intro serves_coarser[where h = ?view and \<alpha> = files and y = "\<lambda>m. m(path_join base k := None, meta_path (path_join base k) := None)"])
        (simp_all add: local_view_put[OF keys in_keys])
    from run[OF this] show ?thesis
      by (simp add: BlobDelete instrumented_blob_def local_blob_def resilient_blob_defs local_meaning_funs)
  next
    case (BlobList pref)
    with c show ?thesis by simp
  qed
qed

lemma local_stack_runs:
  assumes "keeps_files fs ok files L (blob_files base keys)" and "\<forall>k\<in>keys. simple_key k"
    and "5 * L \<le> from_secs (operation_timeout_seconds cfg)" and "\<forall>c\<in>set calls. storable fs keys c"
    and "ok disk"
  shows "\<exists>cb' e'. run_calls
      (blob_client oc cfg backend (instrumented_blob (local_blob fuel fs base) backend)) calls
      (executor_breaker cfg, \<lparr>clock = t, events = evs, store = disk\<rparr>)
    = Some (map Inr (fst (run_spec local_meaning calls (local_view fs base keys (files disk)))), (cb', e'))
    \<and> local_view fs base keys (files (store e'))
        = snd (run_spec local_meaning calls (local_view fs base keys (files disk)))"
  using fresh_stack_runs[of "storable fs keys" ok, OF local_stack_serves[OF assms(1-3)] assms(4,5)] .

text \<open>
  A \<open>put\<close> without metadata leaves the metadata of the \<open>put\<close> before it: a reader gets the new
  contents with the old metadata, where the map of the contract, and the in-memory store, have
  none.
\<close>

lemma metadata_outlives_put:
  assumes "keeps_files fs ok files L (blob_files base keys)" and "\<forall>k\<in>keys. simple_key k"
    and "5 * L \<le> from_secs (operation_timeout_seconds cfg)" and "ok disk" and "k \<in> keys"
    and "fs_to_json fs md = Inr js" and "fs_from_json fs js = Inr md"
  shows "\<exists>cb' e'. run_calls
      (blob_client oc cfg backend (instrumented_blob (local_blob fuel fs base) backend))
      [BlobPut k old (Some md), BlobPut k new None, BlobGet k]
      (executor_breaker cfg, \<lparr>clock = t, events = evs, store = disk\<rparr>)
    = Some ([Inr BlobDone, Inr BlobDone, Inr (BlobValue (Some (new, md)))], (cb', e'))
    \<and> fst (run_spec blob_meaning [BlobPut k old (Some md), BlobPut k new None, BlobGet k] m)
      = [BlobDone, BlobDone, BlobValue (Some (new, default_metadata))]"
proof -
  have calls: "\<forall>c\<in>set [BlobPut k old (Some md), BlobPut k new None, BlobGet k]. storable fs keys c"
    using assms(5-7) by simp
  have "fst (run_spec local_meaning [BlobPut k old (Some md), BlobPut k new None, BlobGet k] x)
      = [BlobDone, BlobDone, BlobValue (Some (new, md))]" for x
    by (cases x) (simp add: unwrap_or_default_def apfst_def)
  with local_stack_runs[OF assms(1-3) calls assms(4), of oc backend fuel t evs] show ?thesis
    by (auto simp: unwrap_or_default_def apfst_def simp del: run_calls.simps)
qed

end
