(* ===== verification/Crate_Tests.thy ===== *)
theory Crate_Tests
  imports Facade_Calls Retry_Policy Blob_Local
begin

text \<open>
  The unit tests the crate has in its modules, run on the model: a test is the steps of its body,
  as a Boolean that holds when every assertion does. That they all hold checks the definitions
  against what the authors of the code expect of it; the test of the local blob store is run on the
  file system of \<open>Example_Backends\<close>, where it is shown to pass.
\<close>

section \<open>resilience.rs\<close>

text \<open>The calls take no time; the test sleeps 60 ms.\<close>

definition test_circuit_breaker_transitions :: bool where
  "test_circuit_breaker_transitions =
     (let cb0 = cb_new 2 (from_millis 50);
          (r1, cb1) = can_execute 0 cb0;
          (_, cb2) = on_failure True 0 cb1;
          (r2, cb3) = can_execute 0 cb2;
          (_, cb4) = on_failure True 0 cb3;
          (r3, cb5) = can_execute 0 cb4;
          now = from_millis 60;
          (r4, cb6) = can_execute now cb5;
          (r5, cb7) = can_execute now (on_success cb6)
      in r1 = Inr () \<and> r2 = Inr () \<and> r3 \<noteq> Inr () \<and> r4 = Inr () \<and> r5 = Inr ())"

lemma circuit_breaker_transitions_pass: "test_circuit_breaker_transitions"
  by (simp add: test_circuit_breaker_transitions_def breaker_defs from_millis_def Let_def word_le_nat_alt)

definition retry_test_config :: resilience_config where
  "retry_test_config =
     \<lparr>max_retries = 2, base_backoff_ms = 10, circuit_breaker_threshold = 5,
      circuit_breaker_reset_seconds = 10, operation_timeout_seconds = 2\<rparr>"

text \<open>The operation fails the first time only; its state is the flag it swaps.\<close>

definition fail_once :: "(bool, nat) future" where
  "fail_once = atomic 0 (\<lambda>f. Some (if f then Inr 42 else Inl (Backend ''transient error''), True))"

definition test_resilient_executor_retry :: bool where
  "test_resilient_executor_retry =
     (case execute True retry_test_config ''test'' ''mem'' ''test_op'' fail_once
        (executor_breaker retry_test_config, \<lparr>clock = 0, events = [], store = False\<rparr>) of
        Some (Returned res (cb, e)) \<Rightarrow>
          res = Inr 42 \<and> counter_value RetriesTotal [''test'', ''test_op'', ''mem''] (events e) = 1
      | _ \<Rightarrow> False)"

lemma resilient_executor_retry_passes: "test_resilient_executor_retry"
proof -
  have call: "with_timeout (from_secs (operation_timeout_seconds retry_test_config)) fail_once e
      = Finished (if store e then Inr 42 else Inl (Backend ''transient error'')) (e\<lparr>store := True\<rparr>)" for e
    by (simp add: with_timeout_def fail_once_def atomic_def sleep_def)
  let ?cb = "executor_breaker retry_test_config" and ?e = "\<lparr>clock = 0, events = [], store = False\<rparr>"
  obtain cb1 where cb1: "on_failure True 0 ?cb = (False, cb1)"
    by (simp add: on_failure_def executor_breaker_def cb_new_def Let_def)
  obtain d where d: "backoff_delay True (from_millis (base_backoff_ms retry_test_config)) 1 = Some d"
    using backoff_delay_Some[of True 1 "from_millis (base_backoff_ms retry_test_config)"] by auto
  let ?e2 = "sleep d (emit (Inc RetriesTotal [''test'', ''test_op'', ''mem''])
      (set_breaker_gauge ''test'' ''mem'' cb1 (?e\<lparr>store := True\<rparr>)))"
  have first: "can_execute 0 ?cb = (Inr (), ?cb)"
    by (simp add: executor_breaker_def cb_new_def can_execute_def)
  have "\<not> max_retries retry_test_config < 1" by (simp add: retry_test_config_def)
  then have "execute True retry_test_config ''test'' ''mem'' ''test_op'' fail_once (?cb, ?e)
      = retry_loop True retry_test_config ''test'' ''mem'' ''test_op'' fail_once 1 (cb1, ?e2)"
    using retry_loop_failure[of True 0 retry_test_config fail_once ?e _ "?e\<lparr>store := True\<rparr>" ?cb cb1
        "''test''" "''mem''" "''test_op''"] call[of ?e] cb1 d first
    by (simp add: execute_def Let_def)
  also have "\<dots> = Some (Returned (Inr 42)
      (on_success cb1, set_breaker_gauge ''test'' ''mem'' (on_success cb1) (?e2\<lparr>store := True\<rparr>)))"
    by (rule retry_loop_success) (simp_all add: call set_breaker_gauge_def)
  finally show ?thesis
    by (simp add: test_resilient_executor_retry_def counter_value_def set_breaker_gauge_def emit_def)
qed

section \<open>sorted_set.rs\<close>

text \<open>100.0, 150.0, 180.0 and 200.0 as bit patterns.\<close>

definition score_100 :: f64 where "score_100 = 0x4059000000000000"
definition score_150 :: f64 where "score_150 = 0x4062C00000000000"
definition score_180 :: f64 where "score_180 = 0x4066800000000000"
definition score_200 :: f64 where "score_200 = 0x4069000000000000"

definition test_memory_sorted_set_store :: bool where
  "test_memory_sorted_set_store =
     (let s0 = snd (the (mem_ss_add ''nodes'' ''node-1'' score_100 []));
          s1 = snd (the (mem_ss_add ''nodes'' ''node-2'' score_200 s0));
          s2 = snd (the (mem_ss_add ''nodes'' ''node-3'' score_150 s1));
          (removed, s3) = the (mem_ss_remove_range ''nodes'' score_100 score_150 s2)
      in mem_ss_count ''nodes'' s2 = Some (Inr 3, s2)
         \<and> mem_ss_score ''nodes'' ''node-1'' s2 = Some (Inr (Some score_100), s2)
         \<and> mem_ss_score ''nodes'' ''non-existent'' s2 = Some (Inr None, s2)
         \<and> mem_ss_range ''nodes'' score_100 score_180 None s2
             = Some (Inr [(''node-1'', score_100), (''node-3'', score_150)], s2)
         \<and> removed = Inr 2 \<and> mem_ss_count ''nodes'' s3 = Some (Inr 1, s3))"

lemma memory_sorted_set_store_passes: "test_memory_sorted_set_store"
  by code_simp

section \<open>pubsub.rs\<close>

text \<open>The next message of a stream is the first its receiver has to read.\<close>

definition test_memory_pubsub_store :: "('c, 'rx) broadcast \<Rightarrow> (duration \<Rightarrow> int) \<Rightarrow> bool" where
  "test_memory_pubsub_store bc utc =
     (case mem_subscribe bc [''events''] [] of
        Some (Inr stream, s1) \<Rightarrow>
          (case mem_publish bc utc ''events'' (bytes_of ''test-payload'') 0 s1 of
             Some (Inr _, s2) \<Rightarrow>
               (case hm_get s2 ''events'' of
                  Some tx \<Rightarrow>
                    (case bc_pending bc stream tx of
                       msg # _ \<Rightarrow> msg_channel msg = ''events'' \<and> msg_payload msg = bytes_of ''test-payload''
                     | [] \<Rightarrow> False)
                | None \<Rightarrow> False)
           | _ \<Rightarrow> False)
      | _ \<Rightarrow> False)"

lemma memory_pubsub_store_passes:
  assumes "broadcast_delivers bc listens"
  shows "test_memory_pubsub_store bc utc"
proof -
  obtain rx s1 where s1: "mem_subscribe bc [''events''] [] = Some (Inr rx, s1)"
    "listening bc listens rx ''events'' [] s1"
    using subscribe_listens[OF assms, of "[''events'']" "[]"] by (auto simp: first_channel_def)
  obtain s2 where s2: "mem_publish bc utc ''events'' (bytes_of ''test-payload'') 0 s1 = Some (Inr (), s2)"
    by (cases "hm_get s1 ''events''") (simp_all add: mem_publish_def Let_def)
  from ps_apply_delivers[OF assms s1(2), of utc "Publish ''events'' (bytes_of ''test-payload'') 0"]
  have "listening bc listens rx ''events''
      [\<lparr>msg_channel = ''events'', msg_payload = bytes_of ''test-payload'', msg_timestamp = utc 0\<rparr>] s2"
    by (simp add: s2)
  with s1(1) s2 show ?thesis by (auto simp: test_memory_pubsub_store_def listening_def)
qed

section \<open>metrics.rs\<close>

text \<open>The registry gathers a family once one of its metrics has been used.\<close>

definition test_instrumented_kv_store_metrics :: bool where
  "test_instrumented_kv_store_metrics =
     (let instrumented = instrumented_kv (memory_kv 0) ''memory'' in
      case kv_set instrumented ''test_key'' (bytes_of ''test_val'') None None
        \<lparr>clock = 0, events = [], store = []\<rparr> of
        Finished (Inr _) e1 \<Rightarrow>
          (case kv_get instrumented ''test_key'' None e1 of
             Finished (Inr val) e2 \<Rightarrow>
               val = Some (bytes_of ''test_val'') \<and> KvOperationDuration \<in> set (map event_family (events e2))
           | _ \<Rightarrow> False)
      | _ \<Rightarrow> False)"

lemma instrumented_kv_store_metrics_pass: "test_instrumented_kv_store_metrics"
  by (simp add: test_instrumented_kv_store_metrics_def instrumented_kv_def memory_kv_def mem_kv_defs
      instrumented_def atomic_def Let_def emit_def)

section \<open>lib.rs\<close>

definition test_store_creation_and_health_check ::
  "features \<Rightarrow> ('client, 'conn, 'pool, 's3) drivers \<Rightarrow> ('client, 'conn, 'pool, 's3, 'c, 'rx) networks \<Rightarrow> bool" where
  "test_store_creation_and_health_check fs d net =
     (case from_config fs d default_config of
        Some (Inr g) \<Rightarrow>
          (let S = open_stores True 0 net g in
           case run_steps (facade_client S)
             [OnKv (KvSet ''test_key'' (bytes_of ''test_value'')), OnKv (KvGet ''test_key''), CheckHealth]
             (fresh_world S 0) of
             Some ([_, result, Inr (Report health)], _) \<Rightarrow>
               result = Inr (KvReply (KvValue (Some (bytes_of ''test_value''))))
               \<and> ch_state health = Healthy \<and> length (ch_contracts health) = 5
           | _ \<Rightarrow> False)
      | _ \<Rightarrow> False)"

lemma memory_report_healthy: "ch_state memory_report = Healthy" "length (ch_contracts memory_report) = 5"
  by code_simp+

lemma store_creation_and_health_check_passes: "test_store_creation_and_health_check fs d net"
proof -
  obtain g where g: "from_config fs d default_config = Some (Inr g)" "all_in_memory g"
    using default_all_in_memory by blast
  have time: "0 \<le> from_secs (operation_timeout_seconds (cfg_resilience default_config))" by simp
  let ?calls = "[OnKv (KvSet ''test_key'' (bytes_of ''test_value'')), OnKv (KvGet ''test_key''), CheckHealth]"
  have "\<forall>c \<in> set ?calls. facade_call_ok c" by simp
  from facade_program_yields[OF g time this, of True net 0]
  show ?thesis
    by (auto simp: test_store_creation_and_health_check_def g(1) Let_def memory_report_healthy
        simp del: run_steps.simps)
qed

section \<open>blob.rs\<close>

text \<open>The temporary directory is \<open>base\<close> on a file system that is a parameter.\<close>

definition author_metadata :: metadata where
  "author_metadata = \<lparr>content_type = Some ''text/plain'', custom = [(''author'', ''goy'')]\<rparr>"

definition test_local_blob_store :: "'s file_system \<Rightarrow> string \<Rightarrow> 's \<Rightarrow> bool" where
  "test_local_blob_store fs base disk =
     (let store = local_blob 3 fs base; key = ''certs/node.crt'' in
      case bs_put store key (bytes_of ''CERT_DATA'') (Some author_metadata) None
        \<lparr>clock = 0, events = [], store = disk\<rparr> of
        Finished (Inr _) e1 \<Rightarrow>
          (case bs_get store key None e1 of
             Finished (Inr (Some (dat, retrieved_meta))) e2 \<Rightarrow>
               dat = bytes_of ''CERT_DATA'' \<and> content_type retrieved_meta = Some ''text/plain''
               \<and> hm_get (custom retrieved_meta) ''author'' = Some ''goy''
               \<and> (case bs_list store (Some ''certs/'') None e2 of
                    Finished (Inr list) e3 \<Rightarrow>
                      list = [key]
                      \<and> (case bs_delete store key None e3 of
                           Finished (Inr _) e4 \<Rightarrow>
                             (case bs_get store key None e4 of
                                Finished (Inr found) e5 \<Rightarrow> found = None
                              | _ \<Rightarrow> False)
                         | _ \<Rightarrow> False)
                  | _ \<Rightarrow> False)
           | _ \<Rightarrow> False)
      | _ \<Rightarrow> False)"

end
