(* ===== verification/Blob_S3.thy ===== *)
theory Blob_S3
  imports Blob_Store
begin

text \<open>
  \<open>S3BlobStore\<close> (\<^verbatim>\<open>rust/src/blob.rs\<close>): the settings it is built from, the requests it sends and
  what it makes of the answers. The client of the AWS SDK is a parameter; \<open>keeps_objects\<close> and
  \<open>shows_pages\<close> state what the lemmas rely on.
\<close>

section \<open>Settings\<close>

record s3_settings =
  st_region :: string
  st_credentials :: "(string \<times> string) option"
  st_endpoint :: "string option"
  st_force_path_style :: bool

definition s3_settings_of :: "blob_config \<Rightarrow> s3_settings" where
  "s3_settings_of cfg =
     \<lparr>st_region = (case blob_region cfg of Some r \<Rightarrow> r | None \<Rightarrow> ''us-east-1''),
      st_credentials = (case (blob_access_key cfg, blob_secret_key cfg) of
        (Some ak, Some sk) \<Rightarrow> Some (ak, sk) | _ \<Rightarrow> None),
      st_endpoint = blob_endpoint cfg,
      st_force_path_style = (case blob_force_path_style cfg of Some b \<Rightarrow> b | None \<Rightarrow> True)\<rparr>"

text \<open>\<open>S3BlobStore::new\<close>: the client the SDK builds from the settings, and the bucket.\<close>

definition s3_new :: "(s3_settings \<Rightarrow> 'c) \<Rightarrow> blob_config \<Rightarrow> 'c \<times> string" where
  "s3_new client_of cfg =
     (client_of (s3_settings_of cfg),
      case blob_bucket cfg of Some b \<Rightarrow> b | None \<Rightarrow> ''goy-store'')"

section \<open>Requests and answers\<close>

record put_object_request =
  po_bucket :: string
  po_key :: string
  po_body :: bytes
  po_content_type :: "string option"
  po_metadata :: "(string, string) hashmap"

text \<open>The body of an object is a stream, read to its end by \<open>collect\<close>.\<close>

record 's get_object_output =
  go_content_type :: "string option"
  go_metadata :: "(string, string) hashmap option"
  go_body :: "('s, bytes) future"

record list_objects_request =
  lo_bucket :: string
  lo_prefix :: "string option"
  lo_token :: "string option"

record list_objects_output =
  lo_contents :: "string option list option"
  lo_is_truncated :: "bool option"
  lo_next_token :: "string option"

text \<open>
  The calls on the client. \<open>s3_get_object\<close> answers \<open>None\<close> for the service error
  \<open>NoSuchKey\<close>; every other failure is an error. \<open>s3_expires_in\<close> is
  \<open>PresigningConfig::expires_in\<close>, which refuses some durations.
\<close>

record 's s3_client =
  s3_put_object :: "put_object_request \<Rightarrow> ('s, unit) future"
  s3_get_object :: "string \<Rightarrow> string \<Rightarrow> ('s, 's get_object_output option) future"
  s3_delete_object :: "string \<Rightarrow> string \<Rightarrow> ('s, unit) future"
  s3_list_objects :: "list_objects_request \<Rightarrow> ('s, list_objects_output) future"
  s3_expires_in :: "duration \<Rightarrow> duration result"
  s3_presigned :: "string \<Rightarrow> string \<Rightarrow> duration \<Rightarrow> ('s, string) future"
  s3_head_bucket :: "string \<Rightarrow> ('s, unit) future"

section \<open>The store\<close>

definition put_request :: "string \<Rightarrow> string \<Rightarrow> bytes \<Rightarrow> metadata option \<Rightarrow> put_object_request" where
  "put_request bucket key dat meta =
     (let req = \<lparr>po_bucket = bucket, po_key = key, po_body = dat, po_content_type = None,
                po_metadata = []\<rparr>
      in case meta of
           None \<Rightarrow> req
         | Some m \<Rightarrow>
             let req' = (case content_type m of
                   Some ct \<Rightarrow> req\<lparr>po_content_type := Some ct\<rparr> | None \<Rightarrow> req)
             in fold (\<lambda>(k, v) r. r\<lparr>po_metadata := hm_insert k v (po_metadata r)\<rparr>) (custom m) req')"

definition s3_put :: "'s s3_client \<Rightarrow> string \<Rightarrow> string \<Rightarrow> bytes \<Rightarrow> metadata option \<Rightarrow> ('s, unit) future" where
  "s3_put c bucket key dat meta =
     and_then (s3_put_object c (put_request bucket key dat meta)) (\<lambda>_. ready ())"

definition s3_get :: "'s s3_client \<Rightarrow> string \<Rightarrow> string \<Rightarrow> ('s, (bytes \<times> metadata) option) future" where
  "s3_get c bucket key =
     match_then (s3_get_object c bucket key) (\<lambda>res.
       case res of
         Inr (Some out) \<Rightarrow>
           and_then (go_body out) (\<lambda>dat.
             ready (Some (dat, \<lparr>content_type = go_content_type out,
               custom = (case go_metadata out of Some m \<Rightarrow> m | None \<Rightarrow> [])\<rparr>)))
       | Inr None \<Rightarrow> ready None
       | Inl err \<Rightarrow> bail (S3GetObjectFailed (error_message err)))"

definition s3_delete :: "'s s3_client \<Rightarrow> string \<Rightarrow> string \<Rightarrow> ('s, unit) future" where
  "s3_delete c bucket key = and_then (s3_delete_object c bucket key) (\<lambda>_. ready ())"

text \<open>
  The loop of \<open>list\<close>: one request per page. The fuel is the number of requests at most; out of
  fuel, the loop is still going on.
\<close>

definition page_keys :: "list_objects_output \<Rightarrow> string list" where
  "page_keys out =
     (case lo_contents out of
        None \<Rightarrow> []
      | Some objs \<Rightarrow> concat (map (\<lambda>obj. case obj of Some key \<Rightarrow> [key] | None \<Rightarrow> []) objs))"

primrec s3_list_pages ::
  "nat \<Rightarrow> 's s3_client \<Rightarrow> string \<Rightarrow> string option \<Rightarrow> string option \<Rightarrow> string list
     \<Rightarrow> ('s, string list) future" where
  "s3_list_pages 0 c bucket pref token results = pending"
| "s3_list_pages (Suc fuel) c bucket pref token results =
     and_then (s3_list_objects c \<lparr>lo_bucket = bucket, lo_prefix = pref, lo_token = token\<rparr>) (\<lambda>out.
       let results' = results @ page_keys out
       in if lo_is_truncated out = Some True
          then s3_list_pages fuel c bucket pref (lo_next_token out) results'
          else ready (sort results'))"

definition s3_list :: "nat \<Rightarrow> 's s3_client \<Rightarrow> string \<Rightarrow> string option \<Rightarrow> ('s, string list) future" where
  "s3_list fuel c bucket pref = s3_list_pages fuel c bucket pref None []"

definition s3_presign_url ::
  "'s s3_client \<Rightarrow> string \<Rightarrow> string \<Rightarrow> duration \<Rightarrow> ('s, string) future" where
  "s3_presign_url c bucket key expiry =
     (case s3_expires_in c expiry of
        Inl err \<Rightarrow> bail err
      | Inr presigning_config \<Rightarrow> s3_presigned c bucket key presigning_config)"

definition s3_blob :: "nat \<Rightarrow> 's s3_client \<Rightarrow> string \<Rightarrow> 's blob_store" where
  "s3_blob fuel c bucket =
     \<lparr>bs_put = s3_put c bucket, bs_get = s3_get c bucket, bs_delete = s3_delete c bucket,
      bs_list = s3_list fuel c bucket, bs_presign_url = s3_presign_url c bucket,
      bs_is_healthy = s3_is_healthy (s3_head_bucket c bucket)\<rparr>"

section \<open>Listing page by page\<close>

text \<open>The service answers with these pages, from the given continuation token on.\<close>

fun shows_pages ::
  "'s s3_client \<Rightarrow> ('s \<Rightarrow> bool) \<Rightarrow> ('s \<Rightarrow> 'x) \<Rightarrow> duration \<Rightarrow> 'x \<Rightarrow> string \<Rightarrow> string option
     \<Rightarrow> string option \<Rightarrow> string list list \<Rightarrow> bool" where
  "shows_pages c ok \<alpha> L x bucket pref token [] = False"
| "shows_pages c ok \<alpha> L x bucket pref token (page # pages) =
     (\<exists>out. delivers ok \<alpha> L x (s3_list_objects c \<lparr>lo_bucket = bucket, lo_prefix = pref, lo_token = token\<rparr>) out x
        \<and> page_keys out = page
        \<and> (if pages = [] then lo_is_truncated out \<noteq> Some True
           else lo_is_truncated out = Some True
             \<and> shows_pages c ok \<alpha> L x bucket pref (lo_next_token out) pages))"

lemma s3_list_pages_delivers:
  assumes "shows_pages c ok \<alpha> L x bucket pref token pages" and "length pages \<le> fuel"
  shows "delivers ok \<alpha> (length pages * L) x (s3_list_pages fuel c bucket pref token res)
    (sort (res @ concat pages)) x"
  using assms
proof (induction pages arbitrary: fuel token res)
  case (Cons page pages)
  then obtain fuel' where fuel: "fuel = Suc fuel'" "length pages \<le> fuel'" by (cases fuel) auto
  from Cons.prems obtain out where
    out: "delivers ok \<alpha> L x (s3_list_objects c \<lparr>lo_bucket = bucket, lo_prefix = pref, lo_token = token\<rparr>) out x"
      "page_keys out = page"
      "if pages = [] then lo_is_truncated out \<noteq> Some True
       else lo_is_truncated out = Some True \<and> shows_pages c ok \<alpha> L x bucket pref (lo_next_token out) pages"
    by auto
  have "delivers ok \<alpha> (length pages * L) x
    (if lo_is_truncated out = Some True
     then s3_list_pages fuel' c bucket pref (lo_next_token out) (res @ page)
     else ready (sort (res @ page))) (sort (res @ concat (page # pages))) x"
    using out(3) Cons.IH[OF _ fuel(2), of "lo_next_token out" "res @ page"]
    by (auto simp: delivers_ready split: if_splits)
  then have "delivers ok \<alpha> (L + length pages * L) x
    (s3_list_pages (Suc fuel') c bucket pref token res) (sort (res @ concat (page # pages))) x"
    unfolding s3_list_pages.simps by (intro settles_and_then[OF out(1)]) (simp add: out(2) Let_def)
  then show ?case by (simp add: fuel(1))
qed simp

text \<open>
  A service that announces more but gives no token to continue with is asked for its first page
  again, and again.
\<close>

lemma s3_list_pages_repeats:
  assumes "delivers ok \<alpha> L x (s3_list_objects c \<lparr>lo_bucket = bucket, lo_prefix = pref, lo_token = None\<rparr>) out x"
    and "lo_is_truncated out = Some True" and "lo_next_token out = None"
    and "ok (store e)" and "\<alpha> (store e) = x"
  shows "\<exists>e'. s3_list_pages fuel c bucket pref None res None e = Unfinished e'"
  using assms(4,5)
proof (induction fuel arbitrary: e res)
  case 0
  then show ?case by (simp add: pending_def)
next
  case (Suc fuel)
  from settlesE[OF assms(1) Suc.prems, of None] obtain e1 where
    e1: "s3_list_objects c \<lparr>lo_bucket = bucket, lo_prefix = pref, lo_token = None\<rparr> None e = Finished (Inr out) e1"
      "ok (store e1)" "\<alpha> (store e1) = x"
    by (auto simp: in_time_def)
  from Suc.IH[OF e1(2,3), of "res @ page_keys out"] show ?case
    by (simp add: and_then_def match_then_def e1(1) assms(2,3) time_left_of_def Let_def)
qed

section \<open>Objects as a map\<close>

text \<open>
  What a service promises for one bucket, with \<open>objects\<close> its contents and their metadata by key:
  what was put is what is got, except that an object put without a content type gets the one
  \<open>ctype\<close> says. Names of user metadata are promised back only when they are in \<open>names\<close>, as a
  service may change their case.
\<close>

definition keeps_objects ::
  "'s s3_client \<Rightarrow> ('s \<Rightarrow> bool) \<Rightarrow> ('s \<Rightarrow> blob_map) \<Rightarrow> duration \<Rightarrow> string
     \<Rightarrow> (string option \<Rightarrow> string option) \<Rightarrow> string set \<Rightarrow> bool" where
  "keeps_objects c ok objects L bucket ctype names \<longleftrightarrow>
     (\<forall>m key.
        (\<forall>req. po_bucket req = bucket \<and> po_key req = key \<and> fst ` set (po_metadata req) \<subseteq> names \<longrightarrow>
           delivers ok objects L m (s3_put_object c req) ()
             (m(key \<mapsto> (po_body req, \<lparr>content_type = ctype (po_content_type req),
                custom = po_metadata req\<rparr>))))
      \<and> (m key = None \<longrightarrow> delivers ok objects L m (s3_get_object c bucket key) None m)
      \<and> (\<forall>d md. m key = Some (d, md) \<longrightarrow>
           (\<exists>out. delivers ok objects L m (s3_get_object c bucket key) (Some out) m
              \<and> go_content_type out = content_type md \<and> go_metadata out = Some (custom md)
              \<and> delivers ok objects L m (go_body out) d m))
      \<and> delivers ok objects L m (s3_delete_object c bucket key) () (m(key := None)))"

definition stored_metadata :: "(string option \<Rightarrow> string option) \<Rightarrow> metadata option \<Rightarrow> metadata" where
  "stored_metadata ctype meta =
     (let md = unwrap_or_default meta
      in \<lparr>content_type = ctype (content_type md), custom = custom md\<rparr>)"

fun s3_meaning ::
  "(string option \<Rightarrow> string option) \<Rightarrow> blob_call \<Rightarrow> blob_map \<Rightarrow> blob_reply \<times> blob_map" where
  "s3_meaning ctype (BlobPut k d meta) m = (BlobDone, m(k \<mapsto> (d, stored_metadata ctype meta)))"
| "s3_meaning ctype (BlobGet k) m = (BlobValue (m k), m)"
| "s3_meaning ctype (BlobDelete k) m = (BlobDone, m(k := None))"

lemma s3_meaning_funs:
  "s3_meaning ctype (BlobPut k d meta) =
     (\<lambda>m. (BlobDone, m(k \<mapsto> (d, stored_metadata ctype meta))))"
  "s3_meaning ctype (BlobGet k) = (\<lambda>m. (BlobValue (m k), m))"
  "s3_meaning ctype (BlobDelete k) = (\<lambda>m. (BlobDone, m(k := None)))"
  by (simp_all add: fun_eq_iff)

fun sendable :: "string set \<Rightarrow> blob_call \<Rightarrow> bool" where
  "sendable names (BlobPut k d meta) =
     (case meta of None \<Rightarrow> True | Some md \<Rightarrow> hm_ok (custom md) \<and> fst ` set (custom md) \<subseteq> names)"
| "sendable names (BlobGet k) = True"
| "sendable names (BlobDelete k) = True"
| "sendable names (BlobList pref) = False"

lemma fold_insert_fresh:
  "distinct (map fst (acc @ entries)) \<Longrightarrow> fold (\<lambda>(k, v). hm_insert k v) entries acc = acc @ entries"
proof (induction entries arbitrary: acc)
  case (Cons kv entries)
  obtain k v where kv: "kv = (k, v)" by (cases kv)
  have "k \<notin> fst ` set acc" using Cons.prems by (auto simp: kv)
  then have "hm_insert k v acc = acc @ [(k, v)]"
    by (induction acc) (auto simp: hm_insert_def)
  with Cons.IH[of "acc @ [(k, v)]"] Cons.prems show ?case by (simp add: kv)
qed simp

lemma put_request_fields:
  "po_bucket (put_request bucket k d meta) = bucket" "po_key (put_request bucket k d meta) = k"
  "po_body (put_request bucket k d meta) = d"
  "po_content_type (put_request bucket k d meta) = content_type (unwrap_or_default meta)"
  "po_metadata (put_request bucket k d meta)
    = fold (\<lambda>(k, v). hm_insert k v) (custom (unwrap_or_default meta)) []"
proof -
  define add :: "string \<times> string \<Rightarrow> put_object_request \<Rightarrow> put_object_request"
    where "add = (\<lambda>(k, v) r. r\<lparr>po_metadata := hm_insert k v (po_metadata r)\<rparr>)"
  have "po_bucket (fold add kvs r) = po_bucket r \<and> po_key (fold add kvs r) = po_key r
      \<and> po_body (fold add kvs r) = po_body r \<and> po_content_type (fold add kvs r) = po_content_type r
      \<and> po_metadata (fold add kvs r) = fold (\<lambda>(k, v). hm_insert k v) kvs (po_metadata r)"
    for kvs and r :: put_object_request
    by (induction kvs arbitrary: r) (auto simp: add_def)
  note fields = this[unfolded add_def]
  show "po_bucket (put_request bucket k d meta) = bucket" "po_key (put_request bucket k d meta) = k"
    "po_body (put_request bucket k d meta) = d"
    "po_content_type (put_request bucket k d meta) = content_type (unwrap_or_default meta)"
    "po_metadata (put_request bucket k d meta)
      = fold (\<lambda>(k, v). hm_insert k v) (custom (unwrap_or_default meta)) []"
    by (auto simp: put_request_def Let_def unwrap_or_default_def default_metadata_def fields
        split: option.splits)
qed

lemma s3_stack_serves:
  assumes objs: "keeps_objects c ok objects L bucket ctype names"
    and time: "2 * L \<le> from_secs (operation_timeout_seconds cfg)" and call: "sendable names call"
  shows "serves_call ok objects
    (blob_client oc cfg backend (instrumented_blob (s3_blob fuel c bucket) backend) call)
    (s3_meaning ctype call)"
proof -
  note run = serves_map_call[OF serves_execute[OF serves_instrumented time]]
  note simps = instrumented_blob_def s3_blob_def resilient_blob_defs s3_meaning_funs
  show ?thesis
  proof (cases call)
    case (BlobPut k d meta)
    let ?req = "put_request bucket k d meta"
    have md: "po_metadata ?req = custom (unwrap_or_default meta)" "fst ` set (po_metadata ?req) \<subseteq> names"
      using call fold_insert_fresh[of "[]" "custom (unwrap_or_default meta)"]
      by (auto simp: BlobPut put_request_fields unwrap_or_default_def default_metadata_def hm_ok_def
          split: option.splits)
    have "delivers ok objects L m (s3_put_object c ?req) () (m(k \<mapsto> (d, stored_metadata ctype meta)))" for m
    proof -
      have "delivers ok objects L m (s3_put_object c ?req) ()
        (m(k \<mapsto> (po_body ?req, \<lparr>content_type = ctype (po_content_type ?req), custom = po_metadata ?req\<rparr>)))"
        using objs md(2) unfolding keeps_objects_def by (simp add: put_request_fields(1,2))
      then show ?thesis
        by (simp add: put_request_fields(3,4) md(1) stored_metadata_def Let_def)
    qed
    then have "serves ok objects (2 * L) (s3_put c bucket k d meta)
      (\<lambda>m. ((), m(k \<mapsto> (d, stored_metadata ctype meta))))"
      unfolding serves_iff_delivers s3_put_def mult_2
      by (auto intro!: settles_and_then delivers_ready)
    from run[OF this] show ?thesis by (simp add: BlobPut simps)
  next
    case (BlobGet k)
    have "delivers ok objects (2 * L) m (s3_get c bucket k) (m k) m" for m
    proof (cases "m k")
      case None
      then have "delivers ok objects L m (s3_get_object c bucket k) None m"
        using objs unfolding keeps_objects_def by blast
      with None show ?thesis
        unfolding s3_get_def mult_2 by (auto intro!: settles_match_then delivers_ready)
    next
      case (Some v)
      obtain d md where v: "v = (d, md)" by (cases v)
      with Some objs obtain out where
        out: "delivers ok objects L m (s3_get_object c bucket k) (Some out) m"
          "go_content_type out = content_type md" "go_metadata out = Some (custom md)"
          "delivers ok objects L m (go_body out) d m"
        unfolding keeps_objects_def by blast
      have "delivers ok objects (L + 0) m (and_then (go_body out) (\<lambda>dat. ready (Some (dat,
          \<lparr>content_type = go_content_type out,
           custom = (case go_metadata out of Some m \<Rightarrow> m | None \<Rightarrow> [])\<rparr>)))) (Some (d, md)) m"
        by (rule settles_and_then[OF out(4)], cases md) (simp add: out(2,3) delivers_ready)
      with out(1) show ?thesis
        unfolding s3_get_def mult_2 Some v by (auto intro!: settles_match_then)
    qed
    then have "serves ok objects (2 * L) (s3_get c bucket k) (\<lambda>m. (m k, m))"
      by (simp add: serves_iff_delivers)
    from run[OF this] show ?thesis by (simp add: BlobGet simps)
  next
    case (BlobDelete k)
    have "serves ok objects (2 * L) (s3_delete c bucket k) (\<lambda>m. ((), m(k := None)))"
      using objs unfolding serves_iff_delivers s3_delete_def keeps_objects_def mult_2
      by (auto intro!: settles_and_then delivers_ready)
    from run[OF this] show ?thesis by (simp add: BlobDelete simps)
  next
    case (BlobList pref)
    with call show ?thesis by simp
  qed
qed

lemma s3_stack_runs:
  assumes "keeps_objects c ok objects L bucket ctype names"
    and "2 * L \<le> from_secs (operation_timeout_seconds cfg)" and "\<forall>call\<in>set calls. sendable names call"
    and "ok service"
  shows "\<exists>cb' e'. run_calls
      (blob_client oc cfg backend (instrumented_blob (s3_blob fuel c bucket) backend)) calls
      (executor_breaker cfg, \<lparr>clock = t, events = evs, store = service\<rparr>)
    = Some (map Inr (fst (run_spec (s3_meaning ctype) calls (objects service))), (cb', e'))
    \<and> objects (store e') = snd (run_spec (s3_meaning ctype) calls (objects service))"
  using fresh_stack_runs[of "sendable names" ok, OF s3_stack_serves[OF assms(1,2)] assms(3,4)] .

end
