(* ===== verification/Example_Backends.thy ===== *)
theory Example_Backends
  imports Breaker_Cancellation Retry_Policy Redis_Expiry Redis_Sorted_Set Redis_Pubsub Migration_Race
    Crate_Tests Blob_S3
begin

text \<open>
  Concrete drivers for the parameters of the model, each shown to behave as documented, and the
  inputs of the witnesses.
\<close>

definition fails_twice :: "nat \<Rightarrow> nat result" where
  "fails_twice i = (if i < 2 then Inl (Backend ''down'') else Inr 7)"

definition two_members :: ss_data where
  "two_members = [(''s'', inner_add ''b'' 2 (inner_add ''a'' 1 empty_inner))]"

definition model_pool :: "pg_view pg_pool" where
  "model_pool =
     \<lparr>pg_fetch_all = (\<lambda>sql. atomic 1 (\<lambda>x. Some (Inr [], x))),
      pg_execute = (\<lambda>sql. atomic 1 (\<lambda>x. Some (Inr 0, x))),
      pg_fetch_optional = (\<lambda>sql binds. atomic 1 (\<lambda>x.
        Some (Inr (if hd binds \<in> versions x then Some (hd binds) else None), x))),
      pg_begin = atomic 1 (\<lambda>x. Some (Inr (), x\<lparr>open_tx := []\<rparr>)),
      pg_tx_execute = (\<lambda>sql binds. atomic 1 (\<lambda>x.
        Some (Inr 1, x\<lparr>open_tx := open_tx x @ [(sql, binds)]\<rparr>))),
      pg_tx_commit = atomic 1 (\<lambda>x.
        Some (Inr (), x\<lparr>applied_log := applied_log x @ tx_log (open_tx x), open_tx := []\<rparr>)),
      pg_tx_rollback = atomic 1 (\<lambda>x. Some (Inr (), x\<lparr>open_tx := []\<rparr>))\<rparr>"

lemma model_pool_runs: "pool_runs model_pool ms (\<lambda>_. True) (\<lambda>x. x) 1"
  unfolding pool_runs_def model_pool_def
  by (intro conjI allI ballI exI[of _ 0] exI[of _ 1]; simp; rule serves_atomic; simp)

definition answering_pool :: "pg_row list \<Rightarrow> pg_view pg_pool" where
  "answering_pool rs = model_pool\<lparr>pg_fetch_all := (\<lambda>sql. atomic 1 (\<lambda>x. Some (Inr rs, x)))\<rparr>"

definition refusing_pool :: "pg_view pg_pool" where
  "refusing_pool = model_pool\<lparr>pg_tx_execute := (\<lambda>sql binds. atomic 1 (\<lambda>x.
     if sql = ''BAD'' then Some (Inl (Backend ''syntax error''), x)
     else Some (Inr 1, x\<lparr>open_tx := open_tx x @ [(sql, binds)]\<rparr>)))\<rparr>"

lemma refusing_pool_runs:
  assumes "\<forall>m\<in>set ms. up_sql m \<noteq> ''BAD''"
  shows "pool_runs refusing_pool ms (\<lambda>_. True) (\<lambda>x. x) 1"
  unfolding pool_runs_def refusing_pool_def model_pool_def
  by (intro conjI allI ballI exI[of _ 0] exI[of _ 1]; simp; rule serves_atomic;
      use assms in \<open>simp add: insert_version_sql_def\<close>)

text \<open>A store over a network that loses the reply to the first \<open>set_if_not_exists\<close>.\<close>

fun on_snd_poll :: "bool \<Rightarrow> ('s, 'a) poll \<Rightarrow> (bool \<times> 's, 'a) poll" where
  "on_snd_poll b (Finished r e) = Finished r \<lparr>clock = clock e, events = events e, store = (b, store e)\<rparr>"
| "on_snd_poll b (Unfinished e) = Unfinished \<lparr>clock = clock e, events = events e, store = (b, store e)\<rparr>"
| "on_snd_poll b (Panicked e) = Panicked \<lparr>clock = clock e, events = events e, store = (b, store e)\<rparr>"

definition on_snd :: "('s, 'a) future \<Rightarrow> (bool \<times> 's, 'a) future" where
  "on_snd fut dl e = on_snd_poll (fst (store e))
     (fut dl \<lparr>clock = clock e, events = events e, store = snd (store e)\<rparr>)"

definition lose_first :: "('s, 'a) future \<Rightarrow> (bool \<times> 's, 'a) future" where
  "lose_first fut dl e =
     (case (dl, on_snd fut dl e) of
        (Some d, Finished r e') \<Rightarrow>
          if fst (store e) then Unfinished \<lparr>clock = clock e + d, events = events e', store = (False, snd (store e'))\<rparr>
          else Finished r e'
      | (_, p) \<Rightarrow> p)"

definition lossy_kv :: "(bool \<times> (string, bytes) hashmap) kv_store" where
  "lossy_kv =
     \<lparr>kv_get = (\<lambda>k. on_snd (kv_get (memory_kv 1) k)),
      kv_set = (\<lambda>k v ttl. on_snd (kv_set (memory_kv 1) k v ttl)),
      kv_delete = (\<lambda>k. on_snd (kv_delete (memory_kv 1) k)),
      kv_exists = (\<lambda>k. on_snd (kv_exists (memory_kv 1) k)),
      kv_set_if_not_exists = (\<lambda>k v ttl. lose_first (kv_set_if_not_exists (memory_kv 1) k v ttl)),
      kv_is_healthy = on_snd (kv_is_healthy (memory_kv 1))\<rparr>"

text \<open>A database that loses the reply to its first commit.\<close>

definition losing_pool :: "(bool \<times> pg_view) pg_pool" where
  "losing_pool =
     \<lparr>pg_fetch_all = (\<lambda>sql. on_snd (pg_fetch_all model_pool sql)),
      pg_execute = (\<lambda>sql. on_snd (pg_execute model_pool sql)),
      pg_fetch_optional = (\<lambda>sql binds. on_snd (pg_fetch_optional model_pool sql binds)),
      pg_begin = on_snd (pg_begin model_pool),
      pg_tx_execute = (\<lambda>sql binds. on_snd (pg_tx_execute model_pool sql binds)),
      pg_tx_commit = lose_first (pg_tx_commit model_pool),
      pg_tx_rollback = on_snd (pg_tx_rollback model_pool)\<rparr>"

lemma losing_pool_transacts: "pool_transacts losing_pool snd"
  unfolding pool_transacts_def losing_pool_def model_pool_def
  by (intro conjI allI;
      auto simp: leaves_def on_snd_def lose_first_def atomic_def versions_def sleep_def split: option.splits)

text \<open>A server of sorted sets.\<close>

definition model_zset :: "rankings zset_conn" where
  "model_zset =
     \<lparr>zc_zadd = (\<lambda>st m s. atomic 1 (\<lambda>R. Some (Inr (), R(st := zrank_in m s (R st))))),
      zc_zrem = (\<lambda>st m. atomic 1 (\<lambda>R. Some (apfst Inr (spec_ss_remove st m R)))),
      zc_zrangebyscore_limit_withscores = (\<lambda>st lo hi off n. atomic 1 (\<lambda>R. Some
        (Inr (zlimited n (filter (\<lambda>e. in_numeric_range lo hi (snd e)) (R st))), R))),
      zc_zrangebyscore_withscores = (\<lambda>st lo hi. atomic 1 (\<lambda>R. Some
        (Inr (filter (\<lambda>e. in_numeric_range lo hi (snd e)) (R st)), R))),
      zc_zcard = (\<lambda>st. atomic 1 (\<lambda>R. Some (apfst Inr (spec_ss_count st R)))),
      zc_zrembyscore = (\<lambda>st lo hi. atomic 1 (\<lambda>R. Some (apfst Inr (spec_ss_remove_range st lo hi R)))),
      zc_zscore = (\<lambda>st m. atomic 1 (\<lambda>R. Some (apfst Inr (spec_ss_score st m R)))),
      zc_ping = ready ''PONG''\<rparr>"

lemma model_zset_keeps: "keeps_zsets model_zset (\<lambda>_. True) (\<lambda>R. R) 1"
  unfolding keeps_zsets_def model_zset_def
  by (intro conjI allI impI; simp; rule serves_atomic; simp add: ss_spec_defs)

definition ranked_calls :: "ss_call list" where
  "ranked_calls = [SsAdd ''s'' ''b'' 2, SsAdd ''s'' ''a'' 1, SsAdd ''s'' ''b'' 0, SsRange ''s'' 0 1 (Some 1),
     SsRemoveRange ''s'' 1 2, SsCount ''s'']"

text \<open>A server that keeps a value and the end of its lifetime for each key.\<close>

type_synonym expiring_data = "(string, bytes \<times> duration option) hashmap"

definition alive :: "expiring_data \<Rightarrow> timeline" where
  "alive s t k = (case hm_get s k of
     None \<Rightarrow> None
   | Some (v, x) \<Rightarrow> (case x of None \<Rightarrow> Some v | Some d \<Rightarrow> if t < d then Some v else None))"

definition store_new ::
  "string \<Rightarrow> bytes \<Rightarrow> duration option \<Rightarrow> duration \<Rightarrow> expiring_data \<Rightarrow> bool \<times> expiring_data" where
  "store_new k v life t s =
     (if alive s t k = None then (True, hm_insert k (v, map_option ((+) t) life) s) else (False, s))"

definition model_redis :: "expiring_data redis_conn" where
  "model_redis =
     \<lparr>rc_get = (\<lambda>k. atomic_at 1 (\<lambda>t s. Some (Inr (alive s t k), s))),
      rc_set = (\<lambda>k v. atomic_at 1 (\<lambda>t s. Some (Inr (), hm_insert k (v, None) s))),
      rc_set_ex = (\<lambda>k v n. atomic_at 1 (\<lambda>t s. Some (Inr (), hm_insert k (v, Some (t + n * 1000000000)) s))),
      rc_del = (\<lambda>k. atomic_at 1 (\<lambda>t s. Some (Inr (), hm_remove k s))),
      rc_exists = (\<lambda>k. atomic_at 1 (\<lambda>t s. Some (Inr (alive s t k \<noteq> None), s))),
      rc_set_nx = (\<lambda>k v. atomic_at 1 (\<lambda>t s. Some (apfst Inr (store_new k v None t s)))),
      rc_query_unit = (\<lambda>cmd args. atomic_at 1 (\<lambda>t s. Some
        (case args of
           [ArgStr k, ArgInt n, ArgBytes v] \<Rightarrow>
             if n = 0 then (Inl (Backend ''invalid expire time''), s)
             else (Inr (), hm_insert k (v, Some (t + n * 1000000)) s)
         | _ \<Rightarrow> (Inl (Backend ''unknown command''), s)))),
      rc_query_option = (\<lambda>cmd args. atomic_at 1 (\<lambda>t s. Some
        (case args of
           [ArgStr k, ArgBytes v, ArgStr nx, ArgStr unit, ArgInt n] \<Rightarrow>
             if n = 0 then (Inl (Backend ''invalid expire time''), s)
             else apfst (Inr \<circ> reply_ok)
               (store_new k v (Some (n * (if unit = ''EX'' then 1000000000 else 1000000))) t s)
         | _ \<Rightarrow> (Inl (Backend ''unknown command''), s)))),
      rc_query_string = (\<lambda>cmd args. ready ''PONG'')\<rparr>"

lemma acts_atomic_at:
  assumes "\<And>t s. \<exists>s'. f t s = Some (fst (g t (alive s)), s') \<and> alive s' = snd (g t (alive s))"
  shows "acts (\<lambda>_. True) alive lat (atomic_at lat f) g"
  unfolding acts_def
proof (intro allI impI)
  fix dl and e :: "expiring_data env"
  assume "in_time lat dl"
  moreover obtain s' where "f (clock e + lat) (store e) = Some (fst (g (clock e + lat) (alive (store e))), s')"
    "alive s' = snd (g (clock e + lat) (alive (store e)))"
    using assms by blast
  ultimately show "\<exists>t e'. atomic_at lat f dl e = Finished (fst (g t (alive (store e)))) e' \<and> True
      \<and> (\<forall>t'\<ge>t. alive (store e') t' = snd (g t (alive (store e))) t')
      \<and> clock e \<le> t \<and> t \<le> clock e' \<and> clock e' \<le> clock e + lat"
    by (intro exI[of _ "clock e + lat"] exI[of _ "(sleep lat e)\<lparr>store := s'\<rparr>"])
      (auto simp: atomic_at_def atomic_def in_time_def split: option.splits)
qed

lemma alive_insert: "alive (hm_insert k (v, x) s) = written k v x (alive s)"
  by (auto simp: fun_eq_iff alive_def written_def split: option.splits)

lemma alive_remove: "alive (hm_remove k s) = (\<lambda>t. (alive s t)(k := None))"
  by (auto simp: fun_eq_iff alive_def)

lemma model_redis_expires:
  "redis_expires model_redis (\<lambda>_. True) alive 1 (Backend ''invalid expire time'')"
  unfolding redis_expires_def
  by (intro conjI allI impI; simp add: model_redis_def; rule acts_atomic_at;
      simp add: tl_defs store_new_def alive_insert alive_remove)

text \<open>A file system whose directories are those its files need.\<close>

definition below :: "string \<Rightarrow> (string, bytes) hashmap \<Rightarrow> string list" where
  "below dir s = map (drop (length dir + 1)) (filter (prefix (dir @ ''/'')) (hm_keys s))"

definition model_files :: "(string, bytes) hashmap file_system" where
  "model_files =
     \<lparr>fs_create_dir_all = (\<lambda>dir. atomic 1 (\<lambda>s. Some (Inr (), s))),
      fs_write = (\<lambda>p bs. atomic 1 (\<lambda>s. Some (Inr (), hm_insert p bs s))),
      fs_read = (\<lambda>p. atomic 1 (\<lambda>s. Some (case hm_get s p of
        None \<Rightarrow> Inl (Backend ''not found'') | Some bs \<Rightarrow> Inr bs, s))),
      fs_exists = (\<lambda>p. atomic 1 (\<lambda>s. Some (Inr (hm_contains s p \<or> below p s \<noteq> []), s))),
      fs_remove_file = (\<lambda>p. atomic 1 (\<lambda>s. Some
        (if hm_contains s p then Inr () else Inl (Backend ''not found''), hm_remove p s))),
      fs_canonicalize = (\<lambda>p. ready None),
      fs_read_dir = (\<lambda>dir. atomic 1 (\<lambda>s. Some
        (Inr (remdups (map (takeWhile (\<lambda>c. c \<noteq> CHR ''/'')) (below dir s))), s))),
      fs_is_dir = (\<lambda>p. atomic 1 (\<lambda>s. Some (Inr (below p s \<noteq> []), s))),
      fs_to_json = (\<lambda>md. if md = author_metadata then Inr [1] else Inl (Backend ''other'')),
      fs_from_json = (\<lambda>js. if js = [1] then Inr author_metadata else Inl (Backend ''other''))\<rparr>"

definition one_blob :: "(string, bytes) hashmap \<Rightarrow> bool" where
  "one_blob s \<longleftrightarrow> set (hm_keys s) \<subseteq> {''/d/a'', ''/d/a.meta.json''}"

lemma set_hm_keys_insert: "set (hm_keys (hm_insert k v m)) = insert k (set (hm_keys m))"
  by (simp add: set_hm_keys)

lemma set_hm_keys_remove: "set (hm_keys (hm_remove k m)) = set (hm_keys m) - {k}"
  by (simp add: set_hm_keys)

lemma model_files_keeps:
  "keeps_files model_files one_blob hm_get 1 (blob_files ''/d'' {''a''})"
proof -
  have paths: "blob_files ''/d'' {''a''} = {''/d/a'', ''/d/a.meta.json''}"
    by (auto simp: blob_files_def path_join_def meta_path_def)
  have none: "below p s = []" if "p \<in> {''/d/a'', ''/d/a.meta.json''}" "one_blob s" for p s
    using that unfolding one_blob_def below_def by (auto simp: filter_empty_conv)
  show ?thesis
    unfolding keeps_files_def paths
    by (auto simp: model_files_def one_blob_def set_hm_keys_insert set_hm_keys_remove hm_contains_def
        none intro!: settles_atomic)
qed

definition tree_of_files :: "(string, bytes) hashmap" where
  "tree_of_files = [(''/d/b'', [1]), (''/d/s/a'', [2]), (''/d/b.meta.json'', [1])]"

lemma model_files_listing:
  "shows_listing model_files (\<lambda>s. s = tree_of_files) hm_get 1 (hm_get tree_of_files) ''/d''
     (FileEntry ''b'' (DirEntry ''s'' (FileEntry ''a'' NoEntry) (FileEntry ''b.meta.json'' NoEntry)))"
  unfolding shows_listing_def
  by (auto simp: model_files_def path_join_def below_def hm_keys_def tree_of_files_def plain_name_def
      intro!: settles_atomic)
text \<open>
  A service that says \<open>binary/octet-stream\<close> of objects put without a type and lists two keys
  per page, two pages at most.
\<close>

definition octet_default :: "string option \<Rightarrow> string option" where
  "octet_default ct = (case ct of Some t \<Rightarrow> Some t | None \<Rightarrow> Some ''binary/octet-stream'')"

definition model_service :: "(string, bytes \<times> metadata) hashmap s3_client" where
  "model_service =
     \<lparr>s3_put_object = (\<lambda>req. atomic 1 (\<lambda>s. Some (Inr (), hm_insert (po_key req)
        (po_body req, \<lparr>content_type = octet_default (po_content_type req), custom = po_metadata req\<rparr>) s))),
      s3_get_object = (\<lambda>bucket key. atomic 1 (\<lambda>s. Some (Inr (map_option (\<lambda>obj.
        \<lparr>go_content_type = content_type (snd obj), go_metadata = Some (custom (snd obj)),
         go_body = ready (fst obj)\<rparr>) (hm_get s key)), s))),
      s3_delete_object = (\<lambda>bucket key. atomic 1 (\<lambda>s. Some (Inr (), hm_remove key s))),
      s3_list_objects = (\<lambda>req. atomic 1 (\<lambda>s.
        let keys = filter (wanted (lo_prefix req)) (hm_keys s)
        in Some (Inr (case lo_token req of
             None \<Rightarrow> \<lparr>lo_contents = Some (map Some (take 2 keys)),
               lo_is_truncated = Some (2 < length keys), lo_next_token = Some ''2''\<rparr>
           | Some tok \<Rightarrow> \<lparr>lo_contents = Some (map Some (drop 2 keys)),
               lo_is_truncated = None, lo_next_token = None\<rparr>), s))),
      s3_expires_in = (\<lambda>d. Inr d),
      s3_presigned = (\<lambda>bucket key d. ready (''https://'' @ bucket @ ''/'' @ key)),
      s3_head_bucket = (\<lambda>bucket. ready ())\<rparr>"

lemma model_service_keeps:
  "keeps_objects model_service (\<lambda>s. True) hm_get 1 bucket octet_default UNIV"
  unfolding keeps_objects_def
  by (auto simp: model_service_def intro!: settles_atomic delivers_ready)

definition three_objects :: "(string, bytes \<times> metadata) hashmap" where
  "three_objects = map (\<lambda>k. (k, [], default_metadata)) [''c'', ''a'', ''b'']"

lemma model_service_pages:
  "shows_pages model_service (\<lambda>s. s = three_objects) hm_get 1 (hm_get three_objects) bucket None None
     [[''c'', ''a''], [''b'']]"
  by (auto simp: model_service_def three_objects_def hm_keys_def wanted_def page_keys_def
      intro!: exI settles_atomic)

definition history_broadcast :: "(message list, nat) broadcast" where
  "history_broadcast =
     \<lparr>bc_channel = (\<lambda>capacity. []),
      bc_send = (\<lambda>msg c. (Inr (), c @ [msg])),
      bc_subscribe = (\<lambda>c. (length c, c)),
      bc_pending = (\<lambda>rx c. drop rx c)\<rparr>"

definition model_drivers :: "(string, string, unit, unit) drivers" where
  "model_drivers =
     \<lparr>open_redis = (\<lambda>url. Inr url), connect_redis = (\<lambda>client. Inr client),
      connect_postgres = (\<lambda>url. Inr ()), new_s3 = (\<lambda>cfg. Inr ())\<rparr>"

definition model_networks :: "(string, string, unit, unit, message list, nat) networks" where
  "model_networks =
     \<lparr>net_kv = (\<lambda>conn. memory_kv 1), net_relational = (\<lambda>pool. memory_relational 1),
      net_sorted_set = (\<lambda>conn. memory_sorted_set 1),
      net_pubsub = (\<lambda>conn client. memory_pubsub history_broadcast int 1),
      net_local = (\<lambda>path. memory_blob 1), net_s3 = (\<lambda>client. memory_blob 1),
      net_broadcast = history_broadcast, net_utc = int\<rparr>"

definition sorted_set_only :: store_config where
  "sorted_set_only = default_config\<lparr>
     cfg_kv := (cfg_kv default_config)\<lparr>kv_url := Some ''redis://cache''\<rparr>,
     cfg_sorted_set := \<lparr>ss_backend = ''redis'', ss_url = Some ''redis://ranks''\<rparr>\<rparr>"

section \<open>The unit test of the local blob store\<close>

lemma cert_paths: "resolve_path ''/d'' ''certs/node.crt'' = Inr ''/d/certs/node.crt''"
  "meta_path ''/d/certs/node.crt'' = ''/d/certs/node.crt.meta.json''"
  "path_parent ''/d/certs/node.crt'' = Some ''/d/certs''" by code_simp+

definition cert_disk :: "bytes \<Rightarrow> (string, bytes) hashmap" where
  "cert_disk d = [(''/d/certs/node.crt'', d), (''/d/certs/node.crt.meta.json'', [1])]"

lemmas on_model_files = model_files_def atomic_def Let_def and_then_def match_then_def ignoring_def time_left_of_def
     ready_def hm_contains_def hm_insert_def below_def hm_keys_def sleep_def author_metadata_def cert_disk_def

lemma cert_calls:
  "local_put model_files ''/d'' ''certs/node.crt'' d (Some author_metadata) None \<lparr>clock = m, events = evs, store = []\<rparr>
    = Finished (Inr ()) \<lparr>clock = m + 3, events = evs, store = cert_disk d\<rparr>"
  "local_get model_files ''/d'' ''certs/node.crt'' None \<lparr>clock = m, events = evs, store = cert_disk d\<rparr>
    = Finished (Inr (Some (d, author_metadata))) \<lparr>clock = m + 4, events = evs, store = cert_disk d\<rparr>"
  "local_get model_files ''/d'' ''certs/node.crt'' None \<lparr>clock = m, events = evs, store = []\<rparr>
    = Finished (Inr None) \<lparr>clock = m + 1, events = evs, store = []\<rparr>"
  "local_delete model_files ''/d'' ''certs/node.crt'' None \<lparr>clock = m, events = evs, store = cert_disk d\<rparr>
    = Finished (Inr ()) \<lparr>clock = m + 4, events = evs, store = []\<rparr>"
  by (simp_all add: local_put_def local_get_def local_delete_def cert_paths on_model_files hm_remove_def)

lemma cert_listing:
  "shows_listing model_files (\<lambda>s. s = cert_disk d) hm_get 1 (hm_get (cert_disk d)) ''/d''
     (DirEntry ''certs'' (FileEntry ''node.crt'' (FileEntry ''node.crt.meta.json'' NoEntry)) NoEntry)"
  "delivers (\<lambda>s. s = cert_disk d) hm_get 1 (hm_get (cert_disk d)) (fs_exists model_files ''/d'') True
     (hm_get (cert_disk d))"
  unfolding shows_listing_def
  by (auto simp: model_files_def path_join_def below_def hm_keys_def cert_disk_def plain_name_def
      intro!: settles_atomic)

lemma cert_list:
  "\<exists>n evs'. local_list 3 model_files ''/d'' (Some ''certs/'') None \<lparr>clock = m, events = evs, store = cert_disk d\<rparr>
    = Finished (Inr [''certs/node.crt'']) \<lparr>clock = n, events = evs', store = cert_disk d\<rparr>"
proof -
  obtain e where "local_list 3 model_files ''/d'' (Some ''certs/'') None \<lparr>clock = m, events = evs, store = cert_disk d\<rparr>
      = Finished (Inr [''certs/node.crt'']) e" "store e = cert_disk d"
    using settlesE[OF local_list_delivers[OF cert_listing(2,1)], of 3 "\<lparr>clock = m, events = evs, store = cert_disk d\<rparr>"
      d None "Some ''certs/''"]
    by (auto simp: wanted_def file_key_def unbackslash_def suffix_def in_time_def)
  then show ?thesis by (cases e) auto
qed

lemma local_blob_store_passes: "test_local_blob_store model_files ''/d'' []"
proof -
  obtain n evs where "local_list 3 model_files ''/d'' (Some ''certs/'') None
      \<lparr>clock = 7, events = [], store = cert_disk (bytes_of ''CERT_DATA'')\<rparr>
    = Finished (Inr [''certs/node.crt'']) \<lparr>clock = n, events = evs, store = cert_disk (bytes_of ''CERT_DATA'')\<rparr>"
    using cert_list[of 7 "[]" "bytes_of ''CERT_DATA''"] by blast
  then show ?thesis
    by (simp add: test_local_blob_store_def local_blob_def cert_calls Let_def) (simp add: author_metadata_def)
qed

end
