(* ===== verification/Spec2Isabelle.thy ===== *)
theory Spec2Isabelle
  imports Example_Backends
begin

text \<open>
  Goy Store, the unified persistence abstraction of \<^verbatim>\<open>rust/src\<close>: a verification library.

  \<^bold>\<open>The program.\<close> A \<open>GoyStore\<close> (\<^verbatim>\<open>lib.rs\<close>) offers five contracts, each an async trait with
  an in-memory backend and one or two networked or file backends: key-value
  (\<^verbatim>\<open>kv.rs\<close>), relational (\<^verbatim>\<open>relational.rs\<close>), sorted set (\<^verbatim>\<open>sorted_set.rs\<close>),
  publish/subscribe (\<^verbatim>\<open>pubsub.rs\<close>) and blob (\<^verbatim>\<open>blob.rs\<close>). \<open>from_config\<close> picks a
  backend by name and wraps it twice: an instrumented store (\<^verbatim>\<open>metrics.rs\<close>) that times every
  call, and around it a resilient store (\<^verbatim>\<open>resilience.rs\<close>) whose executor adds a timeout,
  retries with exponential backoff and jitter, and a circuit breaker.

  \<^bold>\<open>The theories.\<close>
  \<^item> \<open>Store_Prelude\<close>: bytes, machine words, durations, error values, hash maps as association
    lists, the lemma collections.
  \<^item> \<open>Ordered_Map\<close>: \<open>BTreeMap\<close> as a strictly sorted association list. \<open>F64\<close>: \<open>f64\<close> bit
    patterns with \<open>total_cmp\<close> and the IEEE comparisons, and \<open>OrderedScore\<close>. \<open>F64_Round\<close>: the
    rounded arithmetic of the backoff.
  \<^item> \<open>Health\<close>, \<open>Config\<close>, \<open>Metrics\<close>: \<^verbatim>\<open>health.rs\<close>, \<^verbatim>\<open>config.rs\<close>, and the families and
    calls of \<^verbatim>\<open>metrics.rs\<close>.
  \<^item> \<open>Runtime\<close>: environments (clock, metric calls so far, store), futures with deadlines,
    \<open>tokio::time::timeout\<close>, the body of an instrumented method, and \<open>serves\<close>, the refinement
    statement all contracts are made of. \<open>Async_Ops\<close>: \<open>await\<close> in sequence, and \<open>settles\<close>, the
    same statement at one state and for errors too.
  \<^item> \<open>Circuit_Breaker\<close>: \<open>CircuitBreaker\<close>, one call at a time. \<open>Breaker_Interleaving\<close>: the
    same breaker with its two locks under any number of concurrent calls, as a step relation.
    \<open>Breaker_Cancellation\<close>: the same with calls that are dropped while they are under way.
  \<^item> \<open>Executor\<close>: \<open>ResilientExecutor::execute\<close>. \<open>Retry_Policy\<close>: its delays, which attempt
    decides, its longest time. \<open>Metric_Safety\<close>: its metric calls are accepted.
  \<^item> \<open>Health_Probe\<close>: the probes of the networked backends.
  \<^item> \<open>Kv_Store\<close>, \<open>Score_Index\<close> and \<open>Sorted_Set_Store\<close>, \<open>Blob_Store\<close>, \<open>Relational_Store\<close>,
    \<open>Pubsub_Store\<close>: one contract each, with its backends, its two wrappers and its abstract
    specification; for the key-value, the sorted-set and the blob contract a locale, interpreted
    on the in-memory store and on the instrumented store around it.
  \<^item> \<open>Redis_Expiry\<close>: times to live on the Redis key-value backend, as effects on a timeline.
    \<open>Redis_Sorted_Set\<close>: where the Redis and the in-memory sorted sets agree. \<open>Redis_Pubsub\<close>: the
    Redis subscriptions, their forwarding tasks, the server and the clients as labelled steps.
  \<^item> \<open>Faults\<close>: \<open>leaves\<close>, what holds of the store when a future succeeds and what holds of it
    however it ends, through the executor's retries. \<open>Migration_Faults\<close>: a migration run over a
    connection that may fail anywhere. \<open>Migration_Race\<close>: several instances that migrate one
    database at the same time, as a step relation.
  \<^item> \<open>Blob_Path\<close> and \<open>Blob_Local\<close>: the paths and the operations of \<open>LocalBlobStore\<close>, refined to
    two maps (contents, metadata) and, for the listing, to the files of a directory tree.
    \<open>Blob_S3\<close>: the settings and the requests of \<open>S3BlobStore\<close>, refined to a map of objects and, for
    the listing, to the pages of the service.
  \<^item> \<open>Goy_Store\<close>: backend selection and the health report. \<open>Resilient_Stores\<close>: the resilient
    stores as objects. \<open>Facade_Run\<close>: the selected stores opened and called by one program over a
    shared clock, \<^verbatim>\<open>examples/basic_usage.rs\<close>. \<open>Facade_Calls\<close>: any program over the in-memory
    facade. \<open>Crate_Tests\<close>: the unit tests of the crate, run on the model.
    \<open>Example_Backends\<close>: concrete drivers and inputs for the witnesses. This theory: the properties.

  \<^bold>\<open>How state and effects appear.\<close> A store is a record of its methods over a state type. A
  method is a future: from an environment and an optional deadline it finishes with a result,
  is unfinished at the deadline, or panics. A guarded call also has the breaker, and returns,
  is aborted by a panic, or (\<open>None\<close>) never returns; the retry loop is a partial function of the
  option monad, with its termination proved (C2) and the one case where it does not terminate
  (\<open>execute_never_returns\<close>). Arithmetic that overflows follows the flag \<open>oc\<close>: on, as in debug builds, it panics; off
  it wraps. The in-memory stores take a latency and then act at once, under their lock. The two
  listings that loop until a server or a directory tree is exhausted take a fuel, the number of
  directories or of requests at most, and are still going on when it is used up; C24 and C26 give
  the fuel that is enough.

  \<^bold>\<open>Parameters.\<close> The Redis, PostgreSQL and S3 drivers, the file system, the broadcast channel
  and the Prometheus registry are not part of the repository. They are arguments of the
  definitions; a theorem that relies on one names the documented behaviour it relies on
  (\<open>pool_runs\<close>, \<open>pool_refuses\<close>, \<open>broadcast_delivers\<close>, \<open>registers_names\<close>, \<open>keeps_files\<close>,
  \<open>pool_transacts\<close>, \<open>keeps_zsets\<close>, \<open>redis_expires\<close>, \<open>shows_listing\<close>, \<open>keeps_objects\<close>,
  \<open>shows_pages\<close>, \<open>well_timed\<close>).

  \<^bold>\<open>What is not modelled.\<close> How TOML text is parsed (the \<open>toml\<close> and \<open>serde\<close> crates) and how
  a driver opens a connection: \<open>from_file\<close> and the constructors take both as arguments. File
  names that are not UTF-8, other changes to a directory while it is listed, the sleeping of the
  executor beyond the time it takes, and, outside \<open>Breaker_Cancellation\<close>, calls that are
  dropped from outside while they are under way. The Go implementation under \<^verbatim>\<open>go\<close> is a second
  program, the integration tests drive the backends in containers, and the Protobuf file
  describes a service that the repository does not implement: all three are left out.
\<close>

section \<open>The executor\<close>

text \<open>
  C1: an operation whose results are known in advance is called until its first success or
  until the budget of retries is spent, whichever is first: the result is that attempt's, the
  operation ran exactly that many times, the retry counter grew by the attempts before it, and
  the breaker has counted every failure or is closed with none.
\<close>

theorem execute_first_success:
  assumes "max_retries cfg \<noteq> - 1" and "oc \<longrightarrow> unat (max_retries cfg) \<le> 64"
    and "lat \<le> from_secs (operation_timeout_seconds cfg)" and "cb_state cb \<noteq> Open"
    and "unat (consecutive_failures cb) + Suc (unat (max_retries cfg)) < 2 ^ 32" and "store e = 0"
  shows "\<exists>k cb' e'. decides script 0 (unat (max_retries cfg)) k
    \<and> execute oc cfg contract backend op_name (scripted lat script) (cb, e)
        = Some (Returned (script k) (cb', e'))
    \<and> store e' = Suc k
    \<and> counter_value RetriesTotal [contract, op_name, backend] (events e')
        = counter_value RetriesTotal [contract, op_name, backend] (events e) + k
    \<and> breaker_after (script k) (Suc (unat (max_retries cfg))) cb cb'"
proof -
  have "execute oc cfg contract backend op_name (scripted lat script) (cb, e)
      = retry_loop oc cfg contract backend op_name (scripted lat script) (of_nat 0) (cb, e)"
    using assms(4) by (simp add: execute_def)
  moreover have "unat (consecutive_failures cb) + Suc (unat (max_retries cfg) - 0) < 2 ^ 32"
    using assms(5) by simp
  ultimately show ?thesis
    using retry_loop_script[OF assms(1-3) le0 assms(6), where cb = cb and contract = contract
        and backend = backend and op_name = op_name and script = script] by simp
qed

theorem execute_first_success_witness:
  "\<exists>cb' e'. execute True default_resilience ''kv'' ''redis'' ''get'' (scripted 1000 fails_twice)
       (executor_breaker default_resilience, \<lparr>clock = 0, events = [], store = 0\<rparr>)
     = Some (Returned (Inr 7) (cb', e'))
   \<and> store e' = 3 \<and> counter_value RetriesTotal [''kv'', ''get'', ''redis''] (events e') = 2
   \<and> cb_state cb' = Closed"
proof -
  have "decides fails_twice 0 3 k \<Longrightarrow> k = 2" for k
    by (cases "k < 2"; cases "k = 2"; cases "k = 3")
      (auto simp: decides_def fails_twice_def dest: spec[of _ 2])
  then show ?thesis
    using execute_first_success[of default_resilience True 1000 "executor_breaker default_resilience"
        "\<lparr>clock = 0, events = [], store = 0\<rparr>" fails_twice "''kv''" "''redis''" "''get''"]
    by (force simp: default_resilience_def default_value_defs executor_breaker_def cb_new_def
        from_secs_def counter_value_def fails_twice_def breaker_after_def)
qed



text \<open>
  C3: a call on an operation that respects its deadline is over within the timeouts of all its
  attempts and the delays between them, with the settings of the configuration.
\<close>

theorem execute_within:
  assumes "max_retries cfg \<noteq> - 1" and "well_timed operation"
    and "execute oc cfg contract backend op_name operation (cb, e) = Some out"
  shows "outcome_clock out \<le> clock e
    + Suc (unat (max_retries cfg)) * from_secs (operation_timeout_seconds cfg)
    + (\<Sum>i = 1..unat (max_retries cfg). delay_of cfg i)"
  using execute_time[OF assms] by (simp add: max_call_time_def time_left_def)

theorem execute_within_witness:
  "outcome_clock (the (execute True (default_resilience\<lparr>max_retries := 0\<rparr>) ''kv'' ''redis'' ''get''
      (scripted 9000000000 (\<lambda>_. Inr 1) :: (nat, nat) future)
      (executor_breaker default_resilience, \<lparr>clock = 0, events = [], store = 0\<rparr>))) \<le> 5000000000"
proof -
  let ?cfg = "default_resilience\<lparr>max_retries := 0\<rparr>"
  let ?st = "(executor_breaker default_resilience, \<lparr>clock = 0, events = [], store = 0 :: nat\<rparr>)"
  let ?op = "scripted 9000000000 (\<lambda>_. Inr 1) :: (nat, nat) future"
  obtain out where out: "execute True ?cfg ''kv'' ''redis'' ''get'' ?op ?st = Some out"
    using execute_terminates[of True ?cfg] by blast
  have "well_timed ?op" unfolding scripted_def by (rule well_timed_atomic)
  from execute_within[OF _ this out] have "outcome_clock out \<le> 5000000000"
    by (simp add: default_resilience_def default_value_defs from_secs_def)
  then show ?thesis by (simp only: out option.sel)
qed

text \<open>
  C4: for delays that fit in 50 bits, the delay before a retry is the exponential one within a
  quarter: \<open>base * 2 ^ (attempt - 1)\<close> milliseconds, up or down by 25 percent.
\<close>

theorem backoff_within_quarter:
  assumes "0 < attempt" and "unat attempt \<le> 64"
    and "unat base_ms * 2 ^ (unat attempt - 1) < 2 ^ 50"
  shows "\<exists>ms. backoff_delay oc (from_millis base_ms) attempt = Some (from_millis ms)
    \<and> 3 * (unat base_ms * 2 ^ (unat attempt - 1)) div 4 \<le> unat ms
    \<and> unat ms \<le> 5 * (unat base_ms * 2 ^ (unat attempt - 1)) div 4"
  using assms by (rule backoff_delay_bounds)

theorem backoff_within_quarter_witness:
  "\<exists>ms. backoff_delay True (from_millis 100) 3 = Some (from_millis ms) \<and> 300 \<le> unat ms \<and> unat ms \<le> 500"
  using backoff_within_quarter[of 3 100 True] by simp

text \<open>
  C5: while the breaker is open and its reset timeout has not passed, a call fails at once: the
  operation is not started, the store, the clock and the metrics are untouched.
\<close>

theorem open_breaker_rejects:
  assumes "cb_state cb = Open" and "last_failure_time cb = Some t"
    and "clock e < t + reset_timeout cb" and "0 < reset_timeout cb"
  shows "execute oc cfg contract backend op_name operation (cb, e)
    = Some (Returned (Inl CircuitBreakerOpen) (cb, e))"
  using assms by (simp add: execute_def can_execute_open)

theorem open_breaker_rejects_witness:
  "execute True default_resilience ''kv'' ''redis'' ''get'' (scripted 0 (\<lambda>_. Inr 1) :: (nat, nat) future)
     (snd (on_failure True 10 (cb_new 1 100)), \<lparr>clock = 50, events = [], store = 0\<rparr>)
   = Some (Returned (Inl CircuitBreakerOpen)
       (snd (on_failure True 10 (cb_new 1 100)), \<lparr>clock = 50, events = [], store = 0\<rparr>))"
  by (rule open_breaker_rejects[of _ 10]) (simp_all add: on_failure_def cb_new_def)

text \<open>
  C6: every metric call an instrumented operation makes under the executor is one the registry
  accepts: the family is registered with that kind and gets one value per label, so
  \<open>with_label_values\<close> never panics.
\<close>

theorem execute_metric_calls_accepted:
  assumes "fam \<in> duration_families" and "metrics_safe fut" and "events_ok e"
    and "execute oc cfg contract backend op_name
      (instrumented fam contract op_name backend fut) (cb, e) = Some out"
  shows "events_ok (outcome_env out)"
  using execute_events_ok[OF assms(4) metrics_safe_instrumented[OF assms(1,2)]] assms(3) by simp

theorem execute_metric_calls_accepted_witness:
  "events_ok (outcome_env (the (execute True default_resilience ''kv'' ''memory'' ''get''
     (instrumented KvOperationDuration ''kv'' ''get'' ''memory''
       (scripted 0 (\<lambda>_. Inl (Backend ''down'')) :: (nat, nat) future))
     (executor_breaker default_resilience, \<lparr>clock = 0, events = [], store = 0\<rparr>))))"
proof -
  let ?op = "scripted 0 (\<lambda>_. Inl (Backend ''down'')) :: (nat, nat) future"
  obtain out where out: "execute True default_resilience ''kv'' ''memory'' ''get''
      (instrumented KvOperationDuration ''kv'' ''get'' ''memory'' ?op)
      (executor_breaker default_resilience, \<lparr>clock = 0, events = [], store = 0\<rparr>) = Some out"
    using execute_terminates[of True] by blast
  have "metrics_safe ?op" unfolding scripted_def by (rule metrics_safe_atomic)
  from execute_metric_calls_accepted[OF _ this _ out] have "events_ok (outcome_env out)"
    by (simp add: duration_families_def events_ok_def)
  then show ?thesis by (simp only: out option.sel)
qed

section \<open>The circuit breaker\<close>

text \<open>
  C7: after any sequence of calls on a fresh breaker, made one at a time, its counter is the
  number of failures since the last success, it is closed exactly while that number is below
  the threshold, and when it is not closed the time of the last failure is set.
\<close>

theorem breaker_counts_failures:
  assumes "0 < threshold" and "length calls < 2 ^ 32"
  shows "let cb = breaker_run oc calls (cb_new threshold reset); n = failure_streak calls in
    unat (consecutive_failures cb) = n
    \<and> (cb_state cb = Closed \<longleftrightarrow> n < unat threshold)
    \<and> (cb_state cb \<noteq> Closed \<longrightarrow> last_failure_time cb \<noteq> None)"
  using breaker_run_matches[OF assms, of oc reset] by (simp add: breaker_matches_def cb_new_def Let_def)

theorem breaker_counts_failures_witness:
  "unat (consecutive_failures (breaker_run True [OnFailure 1, OnSuccess, OnFailure 2, OnFailure 3]
     (cb_new 2 10))) = 2
   \<and> cb_state (breaker_run True [OnFailure 1, OnSuccess, OnFailure 2, OnFailure 3] (cb_new 2 10)) \<noteq> Closed"
  using breaker_counts_failures[of 2 "[OnFailure 1, OnSuccess, OnFailure 2, OnFailure 3]" True 10]
  by (simp add: Let_def failure_streak_def)

text \<open>
  C8: a breaker that reached its threshold and whose reset timeout has passed lets the next
  call through as half open, and that call decides: its success closes the breaker with no
  failure counted, its failure opens it again and rejects calls for another reset timeout.
\<close>

theorem half_open_probe:
  assumes "breaker_matches n cb" and "cb_state cb = Open" and "last_failure_time cb = Some t"
    and "t + reset_timeout cb \<le> now" and "Suc n < 2 ^ 32" and "later < now' + reset_timeout cb"
    and "0 < reset_timeout cb"
  shows "\<exists>cb1. can_execute now cb = (Inr (), cb1) \<and> cb_state cb1 = HalfOpen
    \<and> cb_state (on_success cb1) = Closed \<and> consecutive_failures (on_success cb1) = 0
    \<and> cb_state (snd (on_failure oc now' cb1)) = Open
    \<and> can_execute later (snd (on_failure oc now' cb1)) = (Inl CircuitBreakerOpen, snd (on_failure oc now' cb1))"
proof -
  let ?cb1 = "cb\<lparr>cb_state := HalfOpen\<rparr>"
  have c: "unat (consecutive_failures ?cb1) + 1 < 2 ^ 32"
    "unat (failure_threshold ?cb1) \<le> unat (consecutive_failures ?cb1) + 1"
    using assms(1,2,5) by (auto simp: breaker_matches_def)
  have f: "cb_state (snd (on_failure oc now' ?cb1)) = Open"
    "last_failure_time (snd (on_failure oc now' ?cb1)) = Some now'"
    using on_failure_counts(3,4)[OF c(1), of oc now'] c(2) by simp_all
  from can_execute_open[OF f, of later] assms(6,7)
  have "can_execute later (snd (on_failure oc now' ?cb1))
      = (Inl CircuitBreakerOpen, snd (on_failure oc now' ?cb1))" by simp
  moreover have "can_execute now cb = (Inr (), ?cb1)"
    using can_execute_open[OF assms(2,3), of now] assms(4) by simp
  ultimately show ?thesis using f(1) by (intro exI[of _ ?cb1]) simp
qed

theorem half_open_probe_witness:
  "\<exists>cb1. can_execute 200 (snd (on_failure True 10 (cb_new 1 100))) = (Inr (), cb1)
    \<and> cb_state cb1 = HalfOpen
    \<and> cb_state (on_success cb1) = Closed \<and> consecutive_failures (on_success cb1) = 0
    \<and> cb_state (snd (on_failure True 210 cb1)) = Open
    \<and> can_execute 300 (snd (on_failure True 210 cb1)) = (Inl CircuitBreakerOpen, snd (on_failure True 210 cb1))"
  by (rule half_open_probe[of 1 _ 10]) (simp_all add: breaker_matches_def on_failure_def cb_new_def)

section \<open>The breaker under concurrent calls\<close>



text \<open>
  C10: the two locks of the breaker are taken in opposite orders, and the calls can deadlock:
  for every threshold but zero and the largest, a state is reachable in which one call holds
  the state lock and waits for the time lock while another holds the time lock and waits for
  the state lock; from there on no step of any call frees them, and no other call ever reaches
  its operation.
\<close>

theorem breaker_deadlocks:
  assumes "threshold \<noteq> 0" and "threshold \<noteq> - 1"
  shows "\<exists>s. reachable oc threshold reset s \<and> deadlocked 2 1 s
    \<and> (\<forall>t. breaker_steps oc s t \<longrightarrow>
          deadlocked 2 1 t \<and> (\<forall>k. k \<noteq> 1 \<and> k \<noteq> 2 \<longrightarrow> pcs t k \<in> {Idle, CanWait}))"
proof -
  from deadlock_reachable[OF assms, of oc reset] obtain s where
    s: "reachable oc threshold reset s" "deadlocked 2 1 s" "\<forall>k. k \<noteq> 1 \<and> k \<noteq> 2 \<longrightarrow> pcs s k = Idle"
    by blast
  note ok = reachable_locks_ok[OF s(1)]
  have "deadlocked 2 1 t \<and> (\<forall>k. k \<noteq> 1 \<and> k \<noteq> 2 \<longrightarrow> pcs t k \<in> {Idle, CanWait})"
    if "breaker_steps oc s t" for t
    using deadlocked_steps[OF that ok s(2)] deadlocked_blocks[OF that ok s(2)] s(3) by simp
  with s show ?thesis by blast
qed

theorem breaker_deadlocks_witness:
  "\<exists>s. reachable True 5 30000000000 s \<and> deadlocked 2 1 s
    \<and> (\<forall>t. breaker_steps True s t \<longrightarrow>
          deadlocked 2 1 t \<and> (\<forall>k. k \<noteq> 1 \<and> k \<noteq> 2 \<longrightarrow> pcs t k \<in> {Idle, CanWait}))"
  by (rule breaker_deadlocks) simp_all

text \<open>
  C11: that inversion is the only way to get stuck, also when calls may be dropped at any of
  their waits: in a state that can be reached so, where some call is under way and none under
  way can move, two calls are deadlocked in this way, and dropping either lets the other move.
\<close>

theorem stuck_only_by_inversion:
  assumes "cancel_reachable oc threshold reset s" and "pcs s k \<notin> {Idle, Crashed}"
    and "\<And>i. \<not> can_move oc i s"
  shows "\<exists>i j. deadlocked i j s \<and> (\<exists>t. breaker_drop i s t \<and> can_move oc j t)
    \<and> (\<exists>t. breaker_drop j s t \<and> can_move oc i t)"
proof -
  note ok = cancel_reachable_ok(1)[OF assms(1)]
  obtain i j where "deadlocked i j s"
    using stuck_deadlocked[OF ok assms(3,2)] by blast
  then show ?thesis
    using dropped_reader_frees[OF ok] dropped_opener_frees by blast
qed

theorem stuck_only_by_inversion_witness:
  "\<exists>s. cancel_reachable True 5 30000000000 s \<and> pcs s 1 \<notin> {Idle, Crashed}
    \<and> (\<forall>i. \<not> can_move True i s)
    \<and> (\<exists>i j. deadlocked i j s \<and> (\<exists>t. breaker_drop i s t \<and> can_move True j t)
        \<and> (\<exists>t. breaker_drop j s t \<and> can_move True i t))"
proof -
  obtain s where s: "reachable True 5 30000000000 s" "deadlocked 2 1 s"
    "\<forall>k. k \<noteq> 1 \<and> k \<noteq> 2 \<longrightarrow> pcs s k = Idle"
    using deadlock_reachable[of 5 True 30000000000] by auto
  have stuck: "\<not> can_move True i s" for i
    using deadlocked_stuck[OF reachable_locks_ok[OF s(1)] s(2,3)] .
  have "pcs s 1 \<notin> {Idle, Crashed}" using s(2) by (simp add: deadlocked_def)
  with reachable_cancel[OF s(1)] stuck
    stuck_only_by_inversion[OF reachable_cancel[OF s(1)] this stuck] show ?thesis by blast
qed

text \<open>
  C12: at every moment of every interleaving, calls that are dropped under way included, at
  most one call holds the state lock to write and then none reads it, likewise the time lock;
  and a breaker that is not closed knows the time of a failure that is not in the future, so
  the reset timeout always runs out.
\<close>

theorem breaker_interleaving_safe:
  assumes "cancel_reachable oc threshold reset s"
  shows "(writes_state (pcs s i) \<and> writes_state (pcs s j) \<longrightarrow> i = j)
    \<and> \<not> (writes_state (pcs s i) \<and> reads_state (pcs s j))
    \<and> (writes_time (pcs s i) \<and> writes_time (pcs s j) \<longrightarrow> i = j)
    \<and> \<not> (writes_time (pcs s i) \<and> reads_time (pcs s j))
    \<and> (cb_state (breaker s) \<noteq> Closed \<longrightarrow> (\<exists>t. last_failure_time (breaker s) = Some t \<and> t \<le> time_now s))"
  using cancel_reachable_ok[OF assms]
  by (auto simp: breaker_ok_def dest: state_lock_exclusive time_lock_exclusive)

theorem breaker_interleaving_safe_witness:
  "\<exists>s t. cancel_reachable True 5 30000000000 s \<and> writes_state (pcs s 2) \<and> writes_time (pcs s 1)
    \<and> (\<forall>j. j \<noteq> 2 \<longrightarrow> \<not> writes_state (pcs s j)) \<and> (\<forall>j. \<not> reads_state (pcs s j))
    \<and> (\<forall>j. j \<noteq> 1 \<longrightarrow> \<not> writes_time (pcs s j)) \<and> (\<forall>j. \<not> reads_time (pcs s j))
    \<and> cb_state (breaker s) = Open \<and> last_failure_time (breaker s) = Some t \<and> t \<le> time_now s"
proof -
  obtain s where s: "reachable True 5 30000000000 s" "deadlocked 2 1 s"
    using deadlock_reachable[of 5 True 30000000000] by auto
  have locks: "writes_state (pcs s 2)" "writes_time (pcs s 1)" "cb_state (breaker s) = Open"
    using s(2) reachable_breaker_ok[OF s(1)] by (auto simp: deadlocked_def breaker_ok_def)
  with reachable_cancel[OF s(1)] breaker_interleaving_safe[OF reachable_cancel[OF s(1)]]
  show ?thesis by (metis circuit_state.distinct(1))
qed

text \<open>
  C13: as long as no call is dropped, failures that reach the threshold are not forgotten, in
  whatever order the steps of concurrent calls come: when no call runs its operation or is in
  \<open>on_success\<close> or \<open>on_failure\<close> and the count is at the threshold, the breaker is open. (A call
  that is dropped in \<open>on_failure\<close> can leave it closed: \<open>dropped_failure_reachable\<close>.)
\<close>

theorem threshold_opens:
  assumes "reachable oc threshold reset s" and "threshold \<noteq> 0"
    and "consecutive_failures (breaker s) \<ge> threshold" and "\<And>i. \<not> undecided (pcs s i)"
  shows "cb_state (breaker s) = Open"
  using assms by (rule counted_to_threshold_is_open)

theorem threshold_opens_witness:
  "\<exists>s. reachable False 5 30000000000 s \<and> (\<forall>k. pcs s k = Idle)
    \<and> consecutive_failures (breaker s) = 5 \<and> cb_state (breaker s) = Open"
proof -
  obtain s where s: "reachable False 5 30000000000 s" "\<forall>k. pcs s k = Idle"
    "consecutive_failures (breaker s) = 5"
    using threshold_reachable[of 5 False 30000000000] by auto
  with threshold_opens[OF s(1)] show ?thesis by auto
qed

text \<open>
  C14: a success does not cancel a failure whose bookkeeping is under way: a state is reachable
  in which the breaker is open although no failure is counted and no call is under way.
\<close>

theorem stale_failure_opens:
  assumes "threshold \<noteq> 0"
  shows "\<exists>s. reachable oc threshold reset s \<and> (\<forall>k. pcs s k = Idle)
    \<and> cb_state (breaker s) = Open \<and> consecutive_failures (breaker s) = 0"
  using assms by (rule stale_failure_reachable)

theorem stale_failure_opens_witness:
  "\<exists>s. reachable True 5 30000000000 s \<and> (\<forall>k. pcs s k = Idle)
    \<and> cb_state (breaker s) = Open \<and> consecutive_failures (breaker s) = 0"
  by (rule stale_failure_opens) simp

section \<open>Key-value and sorted-set stores\<close>

text \<open>
  C15: the whole key-value stack over memory, resilient around instrumented around in-memory,
  implements a map: any sequence of calls on it, for values stored without a time to live,
  gets the replies the map gives, with no error, and leaves the map's contents.
\<close>

theorem kv_stack_is_a_map:
  assumes "lat \<le> from_secs (operation_timeout_seconds cfg)" and "hm_ok data"
  shows "\<exists>cb' e'. run_calls
      (kv_client oc cfg backend (instrumented_kv (memory_kv lat) backend)) calls
      (executor_breaker cfg, \<lparr>clock = t, events = evs, store = data\<rparr>)
    = Some (map Inr (fst (run_spec kv_meaning calls (hm_get data))), (cb', e'))
    \<and> hm_get (store e') = snd (run_spec kv_meaning calls (hm_get data))"
proof -
  have "kv_guarded (instrumented_kv (memory_kv lat) backend) hm_ok hm_get lat cfg"
    using instrumented_mem_kv.kv_contract_axioms assms(1)
    by (intro kv_guarded.intro kv_guarded_axioms.intro)
  from kv_guarded.client_run[OF this, of "\<lparr>clock = t, events = evs, store = data\<rparr>"
      "executor_breaker cfg" oc backend calls]
  show ?thesis using assms(2) by (auto simp: executor_breaker_def cb_new_def)
qed

theorem kv_stack_is_a_map_witness:
  "\<exists>cb' e'. run_calls
      (kv_client True default_resilience ''memory'' (instrumented_kv (memory_kv 1000000) ''memory''))
      [KvSetIfNotExists ''k'' [1], KvSetIfNotExists ''k'' [2], KvGet ''k'', KvDelete ''k'', KvExists ''k'']
      (executor_breaker default_resilience, \<lparr>clock = 0, events = [], store = []\<rparr>)
    = Some ([Inr (KvFlag True), Inr (KvFlag False), Inr (KvValue (Some [1])), Inr KvDone,
        Inr (KvFlag False)], (cb', e'))
    \<and> hm_get (store e') = Map.empty"
  using kv_stack_is_a_map[of 1000000 default_resilience "[]" True "''memory''"
      "[KvSetIfNotExists ''k'' [1], KvSetIfNotExists ''k'' [2], KvGet ''k'', KvDelete ''k'', KvExists ''k'']"
      0 "[]"]
  by (simp add: default_operation_timeout apfst_def)



text \<open>
  C17: a lock taken on Redis with \<open>set_if_not_exists\<close> and a time to live is held for the lifetime
  the store sends, the requested one cut to whole seconds (to whole milliseconds below a second):
  a caller served before that is refused and reads the holder's value, and one that starts a
  lifetime after the lock was granted gets it, whatever is left of the time that was asked for.
\<close>

theorem redis_lock_lease:
  assumes "redis_expires conn ok c L invalid" and "L \<le> from_secs (operation_timeout_seconds cfg)"
    and "ok (store e)" and "cb_state cb \<noteq> Open" and "\<forall>t\<ge>clock e. c (store e) t k = None"
    and "ttl_in_range (Some ttl)"
  shows "let s = instrumented_kv (redis_kv conn) backend; lease = sent_lifetime ttl in
    ttl < lease + 1000000000 \<and> 0 < lease \<and> lease \<le> ttl
    \<and> (\<exists>cb1 e1. resilient_kv_set_if_not_exists oc cfg backend s k v (Some ttl) (cb, e)
          = Some (Returned (Inr True) (cb1, e1))
        \<and> clock e1 \<le> clock e + L
        \<and> (\<forall>cb2 d w ttl2. cb_state cb2 \<noteq> Open \<and> ttl_in_range ttl2 \<longrightarrow>
            (clock e1 + d + L < clock e + lease \<longrightarrow>
               reply_of (resilient_kv_set_if_not_exists oc cfg backend s k w ttl2 (cb2, sleep d e1))
                 = Some (Inr False)
               \<and> reply_of (resilient_kv_get oc cfg backend s k (cb2, sleep d e1)) = Some (Inr (Some v)))
          \<and> (lease \<le> d \<longrightarrow>
               reply_of (resilient_kv_set_if_not_exists oc cfg backend s k w ttl2 (cb2, sleep d e1))
                 = Some (Inr True)
               \<and> reply_of (resilient_kv_get oc cfg backend s k (cb2, sleep d e1)) = Some (Inr None))))"
proof -
  obtain cb1 e1 where lock:
    "resilient_kv_set_if_not_exists oc cfg backend (instrumented_kv (redis_kv conn) backend)
       k v (Some ttl) (cb, e) = Some (Returned (Inr True) (cb1, e1))" and
    e1: "ok (store e1)" "clock e \<le> clock e1" "clock e1 \<le> clock e + L" and
    held: "\<forall>t. clock e1 \<le> t \<and> t < clock e + sent_lifetime ttl \<longrightarrow> c (store e1) t k = Some v" and
    free: "\<forall>t. clock e1 + sent_lifetime ttl \<le> t \<longrightarrow> c (store e1) t k = None"
    by (rule redis_lock_taken[OF assms, of oc backend v])
  let ?s = "instrumented_kv (redis_kv conn) backend" and ?lease = "sent_lifetime ttl"
  have told: "reply_of (resilient_kv_set_if_not_exists oc cfg backend ?s k w ttl2 (cb2, sleep d e1))
        = Some (Inr (x = None))
      \<and> reply_of (resilient_kv_get oc cfg backend ?s k (cb2, sleep d e1)) = Some (Inr x)"
    if "cb_state cb2 \<noteq> Open \<and> ttl_in_range ttl2"
      and "\<forall>t. clock e1 + d \<le> t \<and> t \<le> clock e1 + d + L \<longrightarrow> c (store e1) t k = x" for cb2 d w ttl2 x
    using redis_steady_replies[OF assms(1,2), of "sleep d e1" cb2 ttl2 k x] e1(1) that by simp
  have late: "clock e1 + d + L < clock e + ?lease \<Longrightarrow>
      \<forall>t. clock e1 + d \<le> t \<and> t \<le> clock e1 + d + L \<longrightarrow> c (store e1) t k = Some v"
    "?lease \<le> d \<Longrightarrow> \<forall>t. clock e1 + d \<le> t \<and> t \<le> clock e1 + d + L \<longrightarrow> c (store e1) t k = None" for d
    using held free by auto
  have "0 < ?lease"
    using sent_lifetime_bounds(3)[of ttl] assms(6) by (simp add: ttl_in_range_def)
  moreover note sent_lifetime_bounds(1,2)[of ttl] lock e1(3)
    told[OF _ late(1), simplified] told[OF _ late(2), simplified]
  ultimately show ?thesis
    unfolding Let_def by blast
qed

theorem redis_lock_lease_witness:
  "let s = instrumented_kv (redis_kv model_redis) ''redis''; cb = executor_breaker default_resilience in
    \<exists>cb1 e1. resilient_kv_set_if_not_exists True default_resilience ''redis'' s ''lock'' [1] (Some 1900000000)
        (cb, \<lparr>clock = 0, events = [], store = []\<rparr>) = Some (Returned (Inr True) (cb1, e1))
      \<and> reply_of (resilient_kv_get True default_resilience ''redis'' s ''lock'' (cb, sleep 900000000 e1))
          = Some (Inr (Some [1]))
      \<and> reply_of (resilient_kv_set_if_not_exists True default_resilience ''redis'' s ''lock'' [2] None
          (cb, sleep 1000000000 e1)) = Some (Inr True)"
proof -
  have lease: "sent_lifetime 1900000000 = 1000000000"
    by (simp add: sent_lifetime_def as_secs_def)
  let ?cb = "executor_breaker default_resilience" and ?e = "\<lparr>clock = 0, events = [], store = []\<rparr> :: expiring_data env"
  have none: "\<forall>t\<ge>clock ?e. alive (store ?e) t ''lock'' = None" by (simp add: alive_def)
  have closed: "cb_state ?cb \<noteq> Open" by (simp add: executor_breaker_def cb_new_def)
  have ttls: "ttl_in_range (Some 1900000000)" "ttl_in_range None" by (simp_all add: ttl_in_range_def)
  have time: "1 \<le> from_secs (operation_timeout_seconds default_resilience)"
    by (simp add: default_operation_timeout)
  from redis_lock_lease[where oc = True and backend = "''redis''" and v = "[1]",
      OF model_redis_expires time TrueI closed none ttls(1)]
  obtain cb1 e1 where lock:
    "resilient_kv_set_if_not_exists True default_resilience ''redis'' (instrumented_kv (redis_kv model_redis) ''redis'')
       ''lock'' [1] (Some 1900000000) (?cb, ?e) = Some (Returned (Inr True) (cb1, e1))" and
    e1: "clock e1 \<le> 1" and
    later: "\<And>d. (clock e1 + d + 1 < 1000000000 \<longrightarrow>
        reply_of (resilient_kv_get True default_resilience ''redis'' (instrumented_kv (redis_kv model_redis) ''redis'')
          ''lock'' (?cb, sleep d e1)) = Some (Inr (Some [1])))
      \<and> (1000000000 \<le> d \<longrightarrow>
        reply_of (resilient_kv_set_if_not_exists True default_resilience ''redis''
          (instrumented_kv (redis_kv model_redis) ''redis'') ''lock'' [2] None (?cb, sleep d e1)) = Some (Inr True))"
    unfolding Let_def lease using closed ttls(2) by auto
  show ?thesis
    unfolding Let_def using lock later[of 900000000] later[of 1000000000] e1
    by (intro exI[of _ cb1] exI[of _ e1]) simp
qed

text \<open>
  C18: the whole sorted-set stack over memory implements one ordered list per set: any sequence
  of calls, with range bounds the right way round, gets the replies the lists give, and leaves
  lists that are sorted by score with every member once.
\<close>

theorem sorted_set_stack_is_rankings:
  assumes "lat \<le> from_secs (operation_timeout_seconds cfg)" and "\<forall>c \<in> set calls. ss_call_ok c"
  shows "\<exists>cb' e'. run_calls
      (ss_client oc cfg backend (instrumented_sorted_set (memory_sorted_set lat) backend)) calls
      (executor_breaker cfg, \<lparr>clock = t, events = evs, store = []\<rparr>)
    = Some (map Inr (fst (run_spec ss_meaning calls (\<lambda>_. []))), (cb', e'))
    \<and> ss_rankings (store e') = snd (run_spec ss_meaning calls (\<lambda>_. []))
    \<and> (\<forall>st. in_order (ss_rankings (store e') st) \<and> distinct (map fst (ss_rankings (store e') st)))"
  using assms by (rule memory_ss_stack_runs)

theorem sorted_set_stack_is_rankings_witness:
  "\<exists>cb' e'. run_calls
      (ss_client True default_resilience ''memory''
        (instrumented_sorted_set (memory_sorted_set 1000000) ''memory''))
      [SsAdd ''s'' ''b'' 2, SsAdd ''s'' ''a'' 1, SsAdd ''s'' ''b'' 0, SsCount ''s'', SsScore ''s'' ''b'']
      (executor_breaker default_resilience, \<lparr>clock = 0, events = [], store = []\<rparr>)
    = Some ([Inr SsDone, Inr SsDone, Inr SsDone, Inr (SsNumber 2), Inr (SsValue (Some 0))], (cb', e'))"
proof -
  let ?calls = "[SsAdd ''s'' ''b'' 2, SsAdd ''s'' ''a'' 1, SsAdd ''s'' ''b'' 0, SsCount ''s'',
    SsScore ''s'' ''b'']"
  have "fst (run_spec ss_meaning ?calls (\<lambda>_. []))
      = [SsDone, SsDone, SsDone, SsNumber 2, SsValue (Some 0)]"
    by code_simp
  with sorted_set_stack_is_rankings[of 1000000 default_resilience ?calls True "''memory''" 0 "[]"]
  show ?thesis by (auto simp: default_operation_timeout)
qed

text \<open>
  C19: what a range query on memory answers: the members with scores between the bounds under
  \<open>total_cmp\<close>, in order, up to the limit, but at least one of them even for the limit zero; and
  a panic when the bounds are the wrong way round and the set exists.
\<close>

theorem range_by_score_answer:
  assumes "ss_ok sets"
  shows "mem_ss_range st lo hi limit sets =
    (if OrderedScore hi < OrderedScore lo \<and> hm_get sets st \<noteq> None then None
     else Some (Inr
       (let found = filter (\<lambda>e. in_score_range lo hi (snd e)) (ss_rankings sets st) in
        case limit of None \<Rightarrow> found | Some l \<Rightarrow> take (max 1 l) found), sets))"
  using mem_ss_range_serves[OF assms] by (simp add: limited_def Let_def)

theorem range_by_score_answer_witness:
  "mem_ss_range ''s'' 1 2 (Some 0) two_members = Some (Inr [(''a'', 1)], two_members)
   \<and> mem_ss_range ''s'' 2 1 None two_members = None"
proof -
  have "ss_ok two_members"
    unfolding two_members_def ss_ok_def
    by (simp add: hm_ok_def ran_def inner_add_refines(1) empty_inner_ok)
  moreover have "ss_rankings two_members ''s'' = [(''a'', 1), (''b'', 2)]" by code_simp
  moreover have "in_score_range 1 2 1" "in_score_range 1 2 2" "OrderedScore 1 < OrderedScore 2"
    "\<not> OrderedScore 2 < OrderedScore 1" by code_simp+
  ultimately show ?thesis
    using range_by_score_answer[of two_members "''s''" 1 2 "Some 0"]
      range_by_score_answer[of two_members "''s''" 2 1 None]
    by (simp add: two_members_def)
qed

text \<open>
  C20: for bounds that are numbers other than zero, \<open>remove_range\<close> removes exactly the members
  \<open>range_by_score\<close> lists without a limit, reports how many they are and keeps the order of the
  others.
\<close>

theorem remove_range_removes_the_range:
  assumes "ss_ok sets" and "mem_ss_range st lo hi None sets = Some (Inr found, sets)"
    and "\<not> is_nan lo" and "\<not> is_nan hi" and "\<not> is_zero lo" and "\<not> is_zero hi"
  shows "\<exists>sets'. mem_ss_remove_range st lo hi sets = Some (Inr (length found), sets')
    \<and> ss_rankings sets' = (ss_rankings sets)(st := filter (\<lambda>e. e \<notin> set found) (ss_rankings sets st))"
proof -
  have agree: "in_score_range lo hi s \<longleftrightarrow> in_numeric_range lo hi s" for s
    using ranges_agree[of lo hi s] assms(3-6) by simp
  have found: "found = filter (\<lambda>e. in_numeric_range lo hi (snd e)) (ss_rankings sets st)"
    using assms(2) mem_ss_range_serves[OF assms(1), of st lo hi None]
    by (simp add: limited_def agree split: if_splits)
  have "filter (\<lambda>e. e \<notin> set found) (ss_rankings sets st)
      = filter (\<lambda>e. \<not> in_numeric_range lo hi (snd e)) (ss_rankings sets st)"
    unfolding found by (rule filter_cong) auto
  with mem_ss_remove_range_serves[OF assms(1), of st lo hi] found show ?thesis by auto
qed

theorem remove_range_removes_the_range_witness:
  "\<exists>sets'. mem_ss_remove_range ''s'' 2 3 two_members = Some (Inr 1, sets')
    \<and> ss_rankings sets' = (ss_rankings two_members)(''s'' := [(''a'', 1)])"
proof -
  have "ss_ok two_members"
    unfolding two_members_def ss_ok_def
    by (simp add: hm_ok_def ran_def inner_add_refines(1) empty_inner_ok)
  moreover have "mem_ss_range ''s'' 2 3 None two_members = Some (Inr [(''b'', 2)], two_members)"
    by code_simp
  moreover have "\<not> is_nan 2" "\<not> is_nan 3" "\<not> is_zero 2" "\<not> is_zero 3" by code_simp+
  moreover have "ss_rankings two_members ''s'' = [(''a'', 1), (''b'', 2)]" by code_simp
  ultimately show ?thesis
    using remove_range_removes_the_range[of two_members "''s''" 2 3 "[(''b'', 2)]"] by simp
qed

text \<open>
  C21: on a server that keeps its sorted sets as documented, the Redis stack and the in-memory
  stack give the same replies to any sequence of calls in which no two members of a set share a
  score, scores and bounds are numbers other than the negative zero, the bounds are the right way
  round and limits are positive; and both end with the same lists.
\<close>

theorem redis_sorted_set_agrees:
  assumes "keeps_zsets conn ok \<alpha> L" and "ok db" and "\<alpha> db = (\<lambda>_. [])"
    and "L \<le> from_secs (operation_timeout_seconds cfg)"
    and "lat \<le> from_secs (operation_timeout_seconds cfg)" and "untied_run calls (\<lambda>_. [])"
  shows "\<exists>replies cb1 e1 cb2 e2.
    run_calls (ss_client oc cfg ''redis'' (instrumented_sorted_set (redis_sorted_set conn) ''redis'')) calls
      (executor_breaker cfg, \<lparr>clock = t, events = evs, store = db\<rparr>) = Some (map Inr replies, (cb1, e1))
    \<and> run_calls (ss_client oc cfg ''memory'' (instrumented_sorted_set (memory_sorted_set lat) ''memory'')) calls
      (executor_breaker cfg, \<lparr>clock = t, events = evs, store = []\<rparr>) = Some (map Inr replies, (cb2, e2))
    \<and> \<alpha> (store e1) = ss_rankings (store e2)"
proof -
  have ok: "\<forall>c\<in>set calls. ss_call_ok c" using untied_run_same(2)[OF assms(6)] by simp
  have untied: "untied_run calls (\<alpha> db)" and clean: "\<forall>st. \<forall>e \<in> set (\<alpha> db st). clean (snd e)"
    using assms(3,6) by simp_all
  obtain cb1 e1 where "run_calls
      (ss_client oc cfg ''redis'' (instrumented_sorted_set (redis_sorted_set conn) ''redis'')) calls
      (executor_breaker cfg, \<lparr>clock = t, events = evs, store = db\<rparr>)
        = Some (map Inr (fst (run_spec ss_meaning calls (\<lambda>_. []))), (cb1, e1))"
    "\<alpha> (store e1) = snd (run_spec ss_meaning calls (\<lambda>_. []))"
    using redis_ss_stack_runs[OF assms(1,4) untied clean assms(2)] unfolding assms(3) by blast
  moreover obtain cb2 e2 where "run_calls
      (ss_client oc cfg ''memory'' (instrumented_sorted_set (memory_sorted_set lat) ''memory'')) calls
      (executor_breaker cfg, \<lparr>clock = t, events = evs, store = []\<rparr>)
        = Some (map Inr (fst (run_spec ss_meaning calls (\<lambda>_. []))), (cb2, e2))"
    "ss_rankings (store e2) = snd (run_spec ss_meaning calls (\<lambda>_. []))"
    using memory_ss_stack_runs[OF assms(5) ok] by blast
  ultimately show ?thesis
    by (intro exI[of _ "fst (run_spec ss_meaning calls (\<lambda>_. []))"] exI[of _ cb1] exI[of _ e1]
        exI[of _ cb2] exI[of _ e2]) simp
qed

theorem redis_sorted_set_agrees_witness:
  "\<exists>replies cb1 e1 cb2 e2.
    run_calls (ss_client True default_resilience ''redis''
        (instrumented_sorted_set (redis_sorted_set model_zset) ''redis'')) ranked_calls
      (executor_breaker default_resilience, \<lparr>clock = 0, events = [], store = (\<lambda>_. [])\<rparr>)
        = Some (map Inr replies, (cb1, e1))
    \<and> run_calls (ss_client True default_resilience ''memory''
        (instrumented_sorted_set (memory_sorted_set 1) ''memory'')) ranked_calls
      (executor_breaker default_resilience, \<lparr>clock = 0, events = [], store = []\<rparr>)
        = Some (map Inr replies, (cb2, e2))
    \<and> store e1 = ss_rankings (store e2)"
proof -
  have "clean 0" "clean 1" "clean 2" "OrderedScore 0 \<le> OrderedScore 1" "\<not> OrderedScore 2 \<le> OrderedScore 1"
    "OrderedScore 1 < OrderedScore 2" by code_simp+
  then have untied: "untied_run ranked_calls (\<lambda>_. [])" by (simp add: ranked_calls_def rank_in_def)
  show ?thesis
    using redis_sorted_set_agrees[where \<alpha> = "\<lambda>R. R", OF model_zset_keeps TrueI refl _ _ untied]
    by (simp add: default_operation_timeout)
qed

section \<open>Blob stores\<close>

text \<open>
  C22: the whole blob stack over memory implements a map from keys to contents and metadata:
  any sequence of calls gets the replies of the map, listings in order and restricted to the
  prefix, and leaves its contents.
\<close>

theorem blob_stack_is_a_map:
  assumes "lat \<le> from_secs (operation_timeout_seconds cfg)" and "hm_ok blobs"
  shows "\<exists>cb' e'. run_calls
      (blob_client oc cfg backend (instrumented_blob (memory_blob lat) backend)) calls
      (executor_breaker cfg, \<lparr>clock = t, events = evs, store = blobs\<rparr>)
    = Some (map Inr (fst (run_spec blob_meaning calls (blob_view blobs))), (cb', e'))
    \<and> blob_view (store e') = snd (run_spec blob_meaning calls (blob_view blobs))"
proof -
  have "blob_guarded (instrumented_blob (memory_blob lat) backend) hm_ok blob_view lat cfg"
    using instrumented_mem_blob.blob_contract_axioms assms(1)
    by (intro blob_guarded.intro blob_guarded_axioms.intro)
  from blob_guarded.client_run[OF this, of "\<lparr>clock = t, events = evs, store = blobs\<rparr>"
      "executor_breaker cfg" oc backend calls]
  show ?thesis using assms(2) by (auto simp: executor_breaker_def cb_new_def)
qed

theorem blob_stack_is_a_map_witness:
  "\<exists>cb' e'. run_calls
      (blob_client True default_resilience ''memory'' (instrumented_blob (memory_blob 1000000) ''memory''))
      [BlobPut ''k'' [1] None, BlobGet ''k'', BlobDelete ''k'', BlobGet ''k'']
      (executor_breaker default_resilience, \<lparr>clock = 0, events = [], store = []\<rparr>)
    = Some ([Inr BlobDone, Inr (BlobValue (Some ([1], default_metadata))), Inr BlobDone,
        Inr (BlobValue None)], (cb', e'))"
  using blob_stack_is_a_map[of 1000000 default_resilience "[]" True "''memory''"
      "[BlobPut ''k'' [1] None, BlobGet ''k'', BlobDelete ''k'', BlobGet ''k'']" 0 "[]"]
  by (simp add: default_resilience_def default_value_defs from_secs_def apfst_def blob_view_def
      unwrap_or_default_def) auto



text \<open>
  C24: the listing of the local store ends, with fuel for the directories below the base path,
  and within a time set by the number of entries; its answer is the sorted list of the paths,
  relative to the base, of all files that are not metadata and match the prefix.
\<close>

theorem local_list_is_sorted_tree:
  assumes "delivers ok \<alpha> L (\<alpha> disk) (fs_exists fs base) True (\<alpha> disk)"
    and "shows_listing fs ok \<alpha> L (\<alpha> disk) base l" and "dir_count l < fuel" and "ok disk"
  shows "\<exists>e'. local_list fuel fs base pref None \<lparr>clock = t, events = evs, store = disk\<rparr>
      = Finished (Inr (sort (filter (wanted pref) (listing_keys [] l)))) e'
    \<and> \<alpha> (store e') = \<alpha> disk \<and> clock e' \<le> t + (2 + listing_size l) * L"
  using settles_now[OF local_list_delivers[OF assms(1-3)],
      of "\<lparr>clock = t, events = evs, store = disk\<rparr>" pref] assms(4)
  by simp

theorem local_list_is_sorted_tree_witness:
  "\<exists>e'. local_list 2 model_files ''/d'' None None \<lparr>clock = 0, events = [], store = tree_of_files\<rparr>
      = Finished (Inr [''b'', ''s/a'']) e' \<and> clock e' \<le> 7"
proof -
  have base: "delivers (\<lambda>s. s = tree_of_files) hm_get 1 (hm_get tree_of_files)
      (fs_exists model_files ''/d'') True (hm_get tree_of_files)"
    by (auto simp: model_files_def tree_of_files_def below_def hm_keys_def intro!: settles_atomic)
  show ?thesis
    using local_list_is_sorted_tree[OF base model_files_listing, of 2 None 0 "[]"]
    by (auto simp: wanted_def file_key_def unbackslash_def suffix_def)
qed



text \<open>
  C26: the listing of the S3 store joins the pages the service answers with, however many there
  are: with fuel for that many requests it ends within their time, and returns the keys of all
  pages, sorted.
\<close>

theorem s3_list_joins_pages:
  assumes "shows_pages c ok \<alpha> L (\<alpha> service) bucket pref None pages" and "length pages \<le> fuel"
    and "ok service"
  shows "\<exists>e'. s3_list fuel c bucket pref None \<lparr>clock = t, events = evs, store = service\<rparr>
      = Finished (Inr (sort (concat pages))) e'
    \<and> \<alpha> (store e') = \<alpha> service \<and> clock e' \<le> t + length pages * L"
  using settles_now[OF s3_list_pages_delivers[OF assms(1,2), of "[]"],
      of "\<lparr>clock = t, events = evs, store = service\<rparr>"] assms(3)
  by (simp add: s3_list_def)

theorem s3_list_joins_pages_witness:
  "\<exists>e'. s3_list 2 model_service ''b'' None None \<lparr>clock = 0, events = [], store = three_objects\<rparr>
      = Finished (Inr [''a'', ''b'', ''c'']) e' \<and> clock e' \<le> 2"
  using s3_list_joins_pages[OF model_service_pages, of 2 "''b''" 0 "[]"] by auto



text \<open>
  C28: a backslash in front escapes the base path: every absolute path without parent
  references and backslashes is what some accepted key resolves to, whatever the base path is.
\<close>

theorem backslash_key_escapes:
  assumes "hd target = CHR ''/''" and "target \<noteq> []" and "CHR 92 \<notin> set target"
    and "\<not> contains_dots target"
  shows "resolve_path base (CHR 92 # tl target) = Inr target"
proof -
  have "map (\<lambda>c. if c = CHR 92 then CHR ''/'' else c) (tl target) = tl target"
    using assms(2,3) by (intro map_idI) (auto dest: list.set_sel(2))
  then have "clean_key (CHR 92 # tl target) = target"
    using assms(1,2) by (cases target) (simp_all add: clean_key_def unbackslash_def)
  with assms show ?thesis by (simp add: resolve_path_def path_join_def Let_def)
qed

theorem backslash_key_escapes_witness:
  "resolve_path ''/data/blobs'' (CHR 92 # ''etc/passwd'') = Inr ''/etc/passwd''"
  using backslash_key_escapes[of "''/etc/passwd''" "''/data/blobs''"] by simp

section \<open>Relational and publish/subscribe stores\<close>

text \<open>
  C29: a query of the PostgreSQL store returns one row of bytes per row fetched, each with one
  cell per column of the first row, and an integer cell reads back as the integer the database
  holds. The parameters of the query have no part in it.
\<close>

theorem query_rows_read_back:
  assumes "delivers ok \<alpha> L (\<alpha> db) (pg_fetch_all pool sql) rs y" and "ok db"
  shows "\<exists>res e'. pg_query pool sql params None \<lparr>clock = t, events = evs, store = db\<rparr> = Finished (Inr res) e'
    \<and> rows_columns res = (case rs of [] \<Rightarrow> [] | row # _ \<Rightarrow> map fst row)
    \<and> length (rows_data res) = length rs
    \<and> (\<forall>i < length rs. length (rows_data res ! i) = length (rows_columns res))
    \<and> (\<forall>i j n. i < length rs \<and> j < length (rows_columns res) \<and> j < length (rs ! i)
         \<and> int_cell (snd (rs ! i ! j)) n \<longrightarrow> read_int (rows_data res ! i ! j) = n)"
proof -
  have "delivers ok \<alpha> (L + 0) (\<alpha> db) (pg_query pool sql params) (rows_of rs) y"
    unfolding pg_query_def by (rule settles_and_then[OF assms(1) delivers_ready])
  from settles_now[OF this, of "\<lparr>clock = t, events = evs, store = db\<rparr>"] assms(2)
  obtain e' where "pg_query pool sql params None \<lparr>clock = t, events = evs, store = db\<rparr>
      = Finished (Inr (rows_of rs)) e'"
    by auto
  then show ?thesis
    by (intro exI[of _ "rows_of rs"] exI[of _ e']) (auto simp: rows_of_shape int_cell_bytes)
qed

theorem query_rows_read_back_witness:
  "\<exists>res e'. pg_query (answering_pool [[(''id'', \<lparr>try_string = None, try_bytes = None, try_i32 = Some (- 42),
        try_i64 = None\<rparr>)]]) ''SELECT id'' [[1]] None
      \<lparr>clock = 0, events = [], store = \<lparr>applied_log = [], open_tx = []\<rparr>\<rparr> = Finished (Inr res) e'
    \<and> rows_columns res = [''id''] \<and> read_int (rows_data res ! 0 ! 0) = - 42"
proof -
  let ?row = "[(''id'', \<lparr>try_string = None, try_bytes = None, try_i32 = Some (- 42), try_i64 = None\<rparr>)]"
  have "delivers (\<lambda>x. True) (\<lambda>x. x) 1 db (pg_fetch_all (answering_pool [?row]) sql) [?row] db" for db sql
    by (auto simp: answering_pool_def intro!: settles_atomic)
  from query_rows_read_back[OF this, where db = "\<lparr>applied_log = [], open_tx = []\<rparr>"
      and sql = "''SELECT id''" and params = "[[1]]" and t = 0 and evs = "[]"]
  show ?thesis by (fastforce simp: int_cell_def)
qed

text \<open>
  C30: on a database that runs the statements, a migration run applies exactly the migrations
  whose version is not yet recorded, each version once and in order, each recorded with its
  statement; running the same migrations again changes nothing.
\<close>

theorem migrations_apply_once:
  assumes "pool_runs pool ms ok \<alpha> L" and "ok (store e)"
  shows "\<exists>e1 e2. pg_migrate pool ms None e = Finished (Inr ()) e1
    \<and> applied_log (\<alpha> (store e1)) = applied_log (\<alpha> (store e))
        @ map (\<lambda>m. (version m, up_sql m)) (fresh_migrations (versions (\<alpha> (store e))) ms)
    \<and> pg_migrate pool ms None e1 = Finished (Inr ()) e2 \<and> \<alpha> (store e2) = \<alpha> (store e1)"
proof -
  have in_time: "in_time (L + 5 * L * length ms) None" by (simp add: in_time_def)
  obtain e1 where e1: "pg_migrate pool ms None e = Finished (Inr ()) e1"
    "\<alpha> (store e1) = migrate_all ms (\<alpha> (store e))" "ok (store e1)"
    using pg_migrate_serves[OF assms(1)] assms(2) in_time by (rule servesE) simp
  obtain e2 where e2: "pg_migrate pool ms None e1 = Finished (Inr ()) e2"
    "\<alpha> (store e2) = migrate_all ms (\<alpha> (store e1))"
    using pg_migrate_serves[OF assms(1)] e1(3) in_time by (rule servesE) simp
  from e1 e2 show ?thesis by (simp add: migrate_all_log migrate_all_twice)
qed

theorem migrations_apply_once_witness:
  "\<exists>e1 e2. pg_migrate model_pool
       [\<lparr>version = ''1'', up_sql = ''A'', down_sql = []\<rparr>, \<lparr>version = ''2'', up_sql = ''B'', down_sql = []\<rparr>]
       None \<lparr>clock = 0, events = [], store = \<lparr>applied_log = [(''1'', ''A'')], open_tx = []\<rparr>\<rparr>
     = Finished (Inr ()) e1
   \<and> applied_log (store e1) = [(''1'', ''A''), (''2'', ''B'')]
   \<and> pg_migrate model_pool
       [\<lparr>version = ''1'', up_sql = ''A'', down_sql = []\<rparr>, \<lparr>version = ''2'', up_sql = ''B'', down_sql = []\<rparr>]
       None e1 = Finished (Inr ()) e2 \<and> store e2 = store e1"
proof -
  from migrations_apply_once[where e = "\<lparr>clock = 0, events = [],
      store = \<lparr>applied_log = [(''1'', ''A'')], open_tx = []\<rparr>\<rparr>" and ms = "[\<lparr>version = ''1'', up_sql = ''A'',
      down_sql = []\<rparr>, \<lparr>version = ''2'', up_sql = ''B'', down_sql = []\<rparr>]", OF model_pool_runs]
  show ?thesis by (simp add: versions_def)
qed

text \<open>
  C31: a migration that the database refuses ends the run with its error: the new migrations
  before it are recorded, in order and each with its statement, it and the ones after it are
  not, and its transaction is rolled back.
\<close>

theorem migration_failure_keeps_prefix:
  assumes "pool_runs pool before ok \<alpha> L" and "pool_refuses pool bad ok \<alpha> L err"
    and "version bad \<notin> version ` set before \<union> versions (\<alpha> db)" and "ok db"
  shows "\<exists>e'. pg_migrate pool (before @ bad # after) None \<lparr>clock = t, events = evs, store = db\<rparr>
      = Finished (Inl err) e'
    \<and> applied_log (\<alpha> (store e')) = applied_log (\<alpha> db)
        @ map (\<lambda>m. (version m, up_sql m)) (fresh_migrations (versions (\<alpha> db)) before)
    \<and> open_tx (\<alpha> (store e')) = []"
  using settles_now[OF pg_migrate_rejects[OF assms(1-3)],
      of "\<lparr>clock = t, events = evs, store = db\<rparr>" after] assms(4)
  by (auto simp: migrate_all_log)

theorem migration_failure_keeps_prefix_witness:
  "\<exists>e'. pg_migrate refusing_pool
       [\<lparr>version = ''1'', up_sql = ''A'', down_sql = []\<rparr>, \<lparr>version = ''2'', up_sql = ''BAD'', down_sql = []\<rparr>,
        \<lparr>version = ''3'', up_sql = ''C'', down_sql = []\<rparr>]
       None \<lparr>clock = 0, events = [], store = \<lparr>applied_log = [], open_tx = []\<rparr>\<rparr>
     = Finished (Inl (Backend ''syntax error'')) e'
   \<and> applied_log (store e') = [(''1'', ''A'')] \<and> open_tx (store e') = []"
proof -
  let ?m1 = "\<lparr>version = ''1'', up_sql = ''A'', down_sql = []\<rparr>"
  let ?m2 = "\<lparr>version = ''2'', up_sql = ''BAD'', down_sql = []\<rparr>"
  let ?m3 = "\<lparr>version = ''3'', up_sql = ''C'', down_sql = []\<rparr>"
  have runs: "pool_runs refusing_pool [?m1] (\<lambda>_. True) (\<lambda>x. x) 1" by (rule refusing_pool_runs) simp
  have refuses: "pool_refuses refusing_pool ?m2 (\<lambda>_. True) (\<lambda>x. x) 1 (Backend ''syntax error'')"
    unfolding pool_refuses_def refusing_pool_def model_pool_def
    by (auto intro!: settles_atomic serves_atomic)
  show ?thesis
    using migration_failure_keeps_prefix[OF runs refuses,
        of "\<lparr>applied_log = [], open_tx = []\<rparr>" "[?m3]" 0 "[]"]
    by (simp add: versions_def)
qed

text \<open>
  C32: whatever the connection loses, however often the executor repeats the run and whichever way
  the call ends, the migrations recorded are those recorded before and after them, in order, a
  beginning of the new ones, all of them when the call succeeded; no version is recorded twice.
\<close>

theorem migrations_survive_failures:
  assumes "pool_transacts pool \<alpha>"
    and "resilient_migrate oc cfg backend (instrumented_relational (postgres_relational pool) backend) ms
      (cb, e) = Some out"
  shows "let old = applied_log (\<alpha> (store e)); log = applied_log (\<alpha> (store (outcome_env out)));
      new = map (\<lambda>m. (version m, up_sql m)) (fresh_migrations (fst ` set old) ms)
    in (\<exists>n. log = old @ take n new) \<and> (\<forall>st. out = Returned (Inr ()) st \<longrightarrow> log = old @ new)
      \<and> distinct (map fst new) \<and> fst ` set new \<inter> fst ` set old = {}"
proof -
  let ?old = "applied_log (\<alpha> (store e))"
  have new: "map (\<lambda>m. (version m, up_sql m)) (fresh_migrations (fst ` set ?old) ms) = missing ?old ms"
    by (simp add: missing_def entry_def)
  note after = outcome_leaves_cases[OF resilient_migrate_leaves[OF assms]]
  have "grown ?old ms (applied_log (\<alpha> (store (outcome_env out))))"
    by (rule after(1)) (simp add: grown_all)
  moreover have "applied_log (\<alpha> (store (outcome_env out))) = ?old @ missing ?old ms"
    if "out = Returned (Inr ()) st" for st
    by (rule after(2)[OF _ that]) (simp add: grown_all)
  ultimately show ?thesis
    unfolding Let_def new using missing_distinct[of ?old ms] by (auto simp: grown_def)
qed

theorem migrations_survive_failures_witness:
  "\<exists>out. resilient_migrate True default_resilience ''postgres''
        (instrumented_relational (postgres_relational losing_pool) ''postgres'')
        [\<lparr>version = ''1'', up_sql = ''A'', down_sql = []\<rparr>, \<lparr>version = ''2'', up_sql = ''B'', down_sql = []\<rparr>]
        (executor_breaker default_resilience, \<lparr>clock = 0, events = [],
           store = (True, \<lparr>applied_log = [(''1'', ''A'')], open_tx = []\<rparr>)\<rparr>) = Some out
     \<and> (\<exists>n. applied_log (snd (store (outcome_env out))) = (''1'', ''A'') # take n [(''2'', ''B'')])"
proof -
  let ?e = "\<lparr>clock = 0, events = [], store = (True, \<lparr>applied_log = [(''1'', ''A'')], open_tx = []\<rparr>)\<rparr>"
  obtain out where "resilient_migrate True default_resilience ''postgres''
      (instrumented_relational (postgres_relational losing_pool) ''postgres'')
      [\<lparr>version = ''1'', up_sql = ''A'', down_sql = []\<rparr>, \<lparr>version = ''2'', up_sql = ''B'', down_sql = []\<rparr>]
      (executor_breaker default_resilience, ?e) = Some out"
    unfolding resilient_migrate_def using execute_terminates by blast
  with migrations_survive_failures[OF losing_pool_transacts this] show ?thesis by (auto simp: Let_def)
qed







text \<open>
  C36: the Redis store can hand out dead subscriptions: a state is reachable in which a new
  subscriber of a channel is attached to a sender whose forwarding task has ended, and
  nothing is ever sent on it again.
\<close>

theorem dead_subscription:
  "\<exists>before s tx s1. forwarder_run no_forwarders before s
     \<and> redis_subscribe [chan] s = (tx, s1) \<and> 0 < fw_receivers s1 tx
     \<and> {(fw_task t tx, fw_sent t tx) | evs t. forwarder_run s1 evs t} = {(Ended, fw_sent s1 tx)}"
proof -
  obtain before s where reach: "forwarder_run no_forwarders before s" and "fst (redis_subscribe [chan] s) = 0"
    "fw_task (snd (redis_subscribe [chan] s)) 0 = Ended"
    "fw_receivers (snd (redis_subscribe [chan] s)) 0 = 1" "0 < fw_next (snd (redis_subscribe [chan] s))"
    using stale_sender_reachable by blast
  then obtain s1 where s1: "redis_subscribe [chan] s = (0, s1)" "fw_task s1 0 = Ended" "0 < fw_receivers s1 0"
    "0 < fw_next s1"
    by (cases "redis_subscribe [chan] s") simp
  let ?seen = "{(fw_task t 0, fw_sent t 0) | evs t. forwarder_run s1 evs t}"
  have "?seen \<subseteq> {(Ended, fw_sent s1 0)}"
    using forwarder_stays_dead_run[OF _ s1(2,4)] by auto
  moreover have "(Ended, fw_sent s1 0) \<in> ?seen"
    by (intro CollectI exI[of _ "[]"] exI[of _ s1]) (simp add: s1(2))
  ultimately have "?seen = {(Ended, fw_sent s1 0)}" by blast
  with reach s1 show ?thesis by (intro exI[of _ before] exI[of _ s] exI[of _ 0] exI[of _ s1]) simp
qed

section \<open>Health, metrics and the facade\<close>

text \<open>
  C37: the consolidated report names each of the five contracts with its own status, an error
  of the check counting as unhealthy; it is unhealthy when one contract is, degraded when none
  is unhealthy but one is degraded, and healthy when all are.
\<close>

theorem health_report_consolidates:
  assumes "reports_as ''kv'' kv" and "reports_as ''relational'' rel" and "reports_as ''sorted_set'' ss"
    and "reports_as ''pubsub'' ps" and "reports_as ''blob'' blob"
  shows "let report = health_check kv rel ss ps blob; states = reported ` {kv, rel, ss, ps, blob} in
    (ch_state report = Unhealthy \<longleftrightarrow> Unhealthy \<in> states)
    \<and> (ch_state report = Degraded \<longleftrightarrow> Degraded \<in> states \<and> Unhealthy \<notin> states)
    \<and> (ch_state report = Healthy \<longleftrightarrow> states = {Healthy})
    \<and> hm_get (ch_contracts report) =
        [''kv'' \<mapsto> status_or ''kv'' kv, ''relational'' \<mapsto> status_or ''relational'' rel,
         ''sorted_set'' \<mapsto> status_or ''sorted_set'' ss, ''pubsub'' \<mapsto> status_or ''pubsub'' ps,
         ''blob'' \<mapsto> status_or ''blob'' blob]"
proof -
  define S where "S = reported ` {kv, rel, ss, ps, blob}"
  have st: "ch_state (health_check kv rel ss ps blob) = Max (insert Healthy S)"
    unfolding S_def by (rule health_check_state)
  have "finite S" "S \<noteq> {}" by (simp_all add: S_def)
  then show ?thesis
    unfolding Let_def S_def[symmetric] st health_check_contracts[OF assms]
    using severity_max_cases[of S] by blast
qed

theorem health_report_consolidates_witness:
  "ch_state (health_check (Inr (healthy ''kv'' ''redis'' 3)) (Inl (Backend ''refused''))
     (Inr (healthy ''sorted_set'' ''memory'' 0)) (Inr (healthy ''pubsub'' ''memory'' 0))
     (Inr (degraded ''blob'' ''s3'' ''slow'' 900))) = Unhealthy"
  using health_report_consolidates[of "Inr (healthy ''kv'' ''redis'' 3)" "Inl (Backend ''refused'')"
      "Inr (healthy ''sorted_set'' ''memory'' 0)" "Inr (healthy ''pubsub'' ''memory'' 0)"
      "Inr (degraded ''blob'' ''s3'' ''slow'' 900)"]
  by (simp add: reports_as_def reported_def status_defs Let_def)



text \<open>
  C39: a facade made by \<open>from_config\<close> whose contracts are all in memory, as with the default
  configuration, is one abstract world: any program of calls on its five contracts and of health
  checks, in any order and with range bounds the right way round, runs without an error, gets the
  replies of a key-value map, one ordered list per set and a map of blobs, and leaves them as its
  state; no call touches another contract.
\<close>

theorem facade_is_one_world:
  assumes "from_config fs d cfg = Some (Inr g)" and "all_in_memory g"
    and "lat \<le> from_secs (operation_timeout_seconds (cfg_resilience cfg))"
    and "\<forall>c \<in> set calls. facade_call_ok c"
  shows "let S = open_stores oc lat net g; empty = (\<lambda>_. None, \<lambda>_. [], \<lambda>_. None) in
    \<exists>w. run_steps (facade_client S) calls (fresh_world S t)
        = Some (map Inr (fst (run_spec facade_meaning calls empty)), w)
      \<and> (hm_get (snd (w_kv w)), ss_rankings (snd (w_sorted_set w)), blob_view (snd (w_blob w)))
        = snd (run_spec facade_meaning calls empty)"
  unfolding Let_def
  using facade_program_yields[OF assms, of oc net t]
  by (elim exE conjE) (rule exI, rule conjI, assumption, simp add: stands_for_def)

theorem facade_is_one_world_witness:
  "\<exists>g w. from_config \<lparr>redis_backend = True, sqlx_backend = True, s3_backend = True\<rparr> model_drivers
       default_config = Some (Inr g)
     \<and> (let S = open_stores True 1000 model_networks g in
        run_steps (facade_client S)
          [OnKv (KvSet ''k'' [1]), OnBlob (BlobPut ''k'' [2] None), OnKv (KvDelete ''k''),
           PublishOn ''k'' [3], OnBlob (BlobGet ''k''), OnKv (KvGet ''k''), CheckHealth] (fresh_world S 0)
        = Some ([Inr (KvReply KvDone), Inr (BlobReply BlobDone), Inr (KvReply KvDone), Inr Finished_call,
            Inr (BlobReply (BlobValue (Some ([2], default_metadata)))), Inr (KvReply (KvValue None)),
            Inr (Report memory_report)], w))"
proof -
  let ?fs = "\<lparr>redis_backend = True, sqlx_backend = True, s3_backend = True\<rparr>"
  obtain g where g: "from_config ?fs model_drivers default_config = Some (Inr g)" "all_in_memory g"
    using default_all_in_memory by blast
  have time: "1000 \<le> from_secs (operation_timeout_seconds (cfg_resilience default_config))"
    by (simp add: default_config_def default_operation_timeout)
  from facade_is_one_world[OF g time, of "[OnKv (KvSet ''k'' [1]), OnBlob (BlobPut ''k'' [2] None),
      OnKv (KvDelete ''k''), PublishOn ''k'' [3], OnBlob (BlobGet ''k''), OnKv (KvGet ''k''), CheckHealth]"
      True model_networks 0] g(1)
  show ?thesis
    by (intro exI[of _ g]) (auto simp: Let_def unwrap_or_default_def simp del: run_steps.simps)
qed

text \<open>
  C40: the health probe of a Redis contract, with no deadline from outside and a request that
  respects its own, reports within two seconds and never as an error: healthy exactly when the
  ping was answered.
\<close>

theorem redis_probe_reports:
  assumes "well_timed ping" and "\<And>e'. ping (Some (from_secs 2)) e \<noteq> Panicked e'"
  shows "\<exists>status e'. redis_is_healthy contract ping None e = Finished (Inr status) e'
    \<and> clock e' \<le> clock e + from_secs 2
    \<and> hs_contract status = contract \<and> hs_backend status = ''redis''
    \<and> (hs_state status = Healthy \<longleftrightarrow> (\<exists>v e1. ping (Some (from_secs 2)) e = Finished (Inr v) e1))"
  using timed_probe_reports[where request = ping and limit = "from_secs 2" and contract = contract
      and backend = "''redis''" and late = "''health check timed out (2s)''", OF assms]
  unfolding redis_is_healthy_def by blast

theorem redis_probe_reports_witness:
  "\<exists>status e'. redis_is_healthy ''kv'' (scripted 3000000000 (\<lambda>_. Inr ''PONG'')) None
       \<lparr>clock = 0, events = [], store = 0\<rparr> = Finished (Inr status) e'
     \<and> clock e' \<le> 2000000000 \<and> hs_state status \<noteq> Healthy"
proof -
  let ?ping = "scripted 3000000000 (\<lambda>_. Inr ''PONG'') :: (nat, string) future"
  have "well_timed ?ping" unfolding scripted_def by (rule well_timed_atomic)
  from redis_probe_reports[OF this, of "\<lparr>clock = 0, events = [], store = 0\<rparr>" "''kv''"]
  show ?thesis by (auto simp: scripted_def atomic_def from_secs_def)
qed

end
